theory Spec2Isabelle
  imports Main "HOL-Library.AList"
begin

section \<open>JavaScript values\<close>

text \<open>
  The event payload handed to expression functions (\<open>_event.data\<close>) is plain data: it
  holds no functions.
\<close>

datatype jsdata =
    DUndefined
  | DNum int
  | DStr string
  | DArr "jsdata list"
  | DObj "(string \<times> jsdata) list"

text \<open>
  \<open>SCXML.Event\<close>, the envelope of the triggering event: its name, its payload and the
  origin it came from (absent when the event has none).
\<close>

record scxml =
  name :: string
  data :: jsdata
  origin :: "string option"

text \<open>The third argument of an expression function: \<open>{ _event }\<close>.\<close>

record meta =
  event_meta :: scxml

text \<open>
  A value of the program. The context type \<open>'c\<close> is the type parameter \<open>TContext\<close>.
  An object is the list of its own enumerable properties, in insertion order; the property
  \<open>toString\<close>, which \<open>toActionObject\<close> defines on the objects it returns and which is
  not enumerable, is left out of the list. (Values have no identity here: the last
  sections model the objects in a store, with \<open>toString\<close>, to say which objects a call
  writes.) A function carries its \<open>name\<close>, its source text (what \<open>toString()\<close>
  returns) and its behaviour on \<open>(context, event payload, meta)\<close>; a call that passes
  two arguments leaves the third \<open>None\<close>.
\<close>

datatype 'c val =
    Undefined
  | Num int
  | Str string
  | Arr "'c val list"
  | Obj "(string \<times> 'c val) list"
  | Fun string string "'c \<Rightarrow> jsdata \<Rightarrow> meta option \<Rightarrow> 'c val"

datatype error = OutOfFuel | TypeError

primrec ofData :: "jsdata \<Rightarrow> 'c val" where
  "ofData DUndefined = Undefined"
| "ofData (DNum n) = Num n"
| "ofData (DStr s) = Str s"
| "ofData (DArr xs) = Arr (map ofData xs)"
| "ofData (DObj kvs) = Obj (map (map_prod id ofData) kvs)"

definition isFunction :: "'c val \<Rightarrow> bool" where
  "isFunction v = (case v of Fun _ _ _ \<Rightarrow> True | _ \<Rightarrow> False)"

definition isString :: "'c val \<Rightarrow> bool" where
  "isString v = (case v of Str _ \<Rightarrow> True | _ \<Rightarrow> False)"

definition isArray :: "'c val \<Rightarrow> bool" where
  "isArray v = (case v of Arr _ \<Rightarrow> True | _ \<Rightarrow> False)"

definition isUndefined :: "'c val \<Rightarrow> bool" where
  "isUndefined v = (case v of Undefined \<Rightarrow> True | _ \<Rightarrow> False)"

definition isObject :: "'c val \<Rightarrow> bool" where
  "isObject v = (case v of Obj _ \<Rightarrow> True | _ \<Rightarrow> False)"

definition isNumber :: "'c val \<Rightarrow> bool" where
  "isNumber v = (case v of Num _ \<Rightarrow> True | _ \<Rightarrow> False)"

text \<open>JavaScript truthiness, as tested by \<open>!x\<close>, \<open>x ? a : b\<close>, \<open>x && y\<close> and \<open>x || y\<close>.\<close>

definition truthy :: "'c val \<Rightarrow> bool" where
  "truthy v = (case v of Undefined \<Rightarrow> False | Num n \<Rightarrow> n \<noteq> 0 | Str s \<Rightarrow> s \<noteq> [] | _ \<Rightarrow> True)"

text \<open>
  The property read \<open>v.k\<close> for the property names the source reads. A missing property
  reads \<open>undefined\<close>; so does any property of a value that is not a plain object. (On
  \<open>undefined\<close> itself JavaScript throws: the callers below test for it where the source
  can reach it.)
\<close>

definition get :: "'c val \<Rightarrow> string \<Rightarrow> 'c val" where
  "get v k = (case v of
      Obj kvs \<Rightarrow> (case map_of kvs k of Some x \<Rightarrow> x | None \<Rightarrow> Undefined)
    | _ \<Rightarrow> Undefined)"

text \<open>The comparison \<open>v.type === t\<close> with a string \<open>t\<close>.\<close>

definition typeIs :: "'c val \<Rightarrow> string \<Rightarrow> bool" where
  "typeIs v t = (case get v ''type'' of Str s \<Rightarrow> s = t | _ \<Rightarrow> False)"

text \<open>
  The own enumerable properties that a spread \<open>...v\<close> copies from an object; nothing
  from \<open>undefined\<close>. (The index properties of a string or an array are not modelled:
  the TypeScript types allow neither where the source spreads.)
\<close>

definition props :: "'c val \<Rightarrow> (string \<times> 'c val) list" where
  "props v = (case v of Obj kvs \<Rightarrow> kvs | _ \<Rightarrow> [])"

text \<open>
  The object literal \<open>{ ...base, k1: v1, k2: v2 }\<close>: each entry replaces the property
  of that name where it stands, or is appended.
\<close>

definition literal :: "(string \<times> 'c val) list \<Rightarrow> (string \<times> 'c val) list \<Rightarrow> 'c val" where
  "literal base entries = Obj (fold (\<lambda>(k, v). AList.update k v) entries base)"

text \<open>
  The registry read \<open>map?.[k]\<close> and \<open>map && map[k]\<close>: \<open>undefined\<close> when there is no
  map, or no entry. The TypeScript types make every key read here a string; a key of
  another kind finds nothing.
\<close>

definition lookup :: "(string \<rightharpoonup> 'c val) option \<Rightarrow> 'c val \<Rightarrow> 'c val" where
  "lookup reg k = (case reg of
      None \<Rightarrow> Undefined
    | Some m \<Rightarrow> (case k of
          Str s \<Rightarrow> (case m s of Some v \<Rightarrow> v | None \<Rightarrow> Undefined)
        | _ \<Rightarrow> Undefined))"

text \<open>
  The call \<open>f(ctx, d, m)\<close> where the source has tested \<open>isFunction(f)\<close> before, and the
  call where it has not: a \<open>TypeError\<close> unless \<open>f\<close> is a function.
\<close>

definition apply_fun :: "'c val \<Rightarrow> 'c \<Rightarrow> jsdata \<Rightarrow> meta option \<Rightarrow> 'c val" where
  "apply_fun f ctx d m = (case f of Fun _ _ g \<Rightarrow> g ctx d m | _ \<Rightarrow> Undefined)"

text \<open>The property \<open>f.name\<close> of a function.\<close>

definition fun_name :: "'c val \<Rightarrow> string" where
  "fun_name f = (case f of Fun nm _ _ \<Rightarrow> nm | _ \<Rightarrow> [])"

definition call :: "'c val \<Rightarrow> 'c \<Rightarrow> jsdata \<Rightarrow> meta option \<Rightarrow> error + 'c val" where
  "call f ctx d m = (if isFunction f then Inr (apply_fun f ctx d m) else Inl TypeError)"

section \<open>Constants of actionTypes.ts and types.ts\<close>

text \<open>
  The tags of the \<open>ActionTypes\<close> enum and the \<open>SpecialTargets\<close> are declared in files
  that are not part of the sources at hand. The functions below only compare them, so
  all that matters is that they are distinct strings.
\<close>

definition raise_type :: string where "raise_type = ''xstate.raise''"
definition send_type :: string where "send_type = ''xstate.send''"
definition log_type :: string where "log_type = ''xstate.log''"
definition assign_type :: string where "assign_type = ''xstate.assign''"
definition choose_type :: string where "choose_type = ''xstate.choose''"
definition pure_type :: string where "pure_type = ''xstate.pure''"
definition Parent :: string where "Parent = ''#_parent''"
definition Internal :: string where "Internal = ''#_internal''"

section \<open>toActionObject\<close>

text \<open>
  \<open>Object.defineProperty(actionObject, 'toString', {value: () => actionObject.type,
  enumerable: false, configurable: true})\<close> at the end of \<open>toActionObject\<close>: the
  object gets \<open>toString\<close> as an own property that is not enumerable, also when it had
  an enumerable property of that name; so that name leaves the list of the enumerable
  properties, and the others stay as they are. On a number or a string it throws. An
  action is a function, a string or an object with a type (the type \<open>Action\<close>), and a
  registry entry a function or such an object (the type \<open>ActionMap\<close>). JavaScript itself
  would take an array here, an array being an object; the model keeps to the types and
  raises \<open>TypeError\<close> for an array in the place of an action, so that a result \<open>Inr\<close>
  of \<open>toActionObject\<close> is always an object.
\<close>

definition defineToString :: "'c val \<Rightarrow> error + 'c val" where
  "defineToString v = (case v of
      Obj kvs \<Rightarrow> Inr (Obj (AList.delete ''toString'' kvs))
    | _ \<Rightarrow> Inl TypeError)"

definition toActionObject :: "'c val \<Rightarrow> (string \<rightharpoonup> 'c val) option \<Rightarrow> error + 'c val" where
  "toActionObject action actionMap = (case action of
      Fun nm src _ \<Rightarrow>
        defineToString
          (literal [] [(''type'', Str (if nm \<noteq> [] then nm else src)), (''exec'', action)])
    | Str _ \<Rightarrow>
        (let registeredAction = lookup actionMap action in
         if \<not> truthy registeredAction then defineToString (literal [] [(''type'', action)])
         else if isFunction registeredAction then
           defineToString (literal [] [(''type'', action), (''exec'', registeredAction)])
         else defineToString registeredAction)
    | Undefined \<Rightarrow> Inl TypeError
    | _ \<Rightarrow>
        (let registeredAction = lookup actionMap (get action ''type'') in
         if isFunction registeredAction then
           defineToString (literal (props action) [(''exec'', registeredAction)])
         else if truthy registeredAction then
           defineToString (literal (props registeredAction)
             (props action @ [(''type'', get registeredAction ''type'')]))
         else defineToString action))"

text \<open>
  \<open>actions.map((subAction) => toActionObject(subAction, actionMap))\<close>: the first
  entry that throws ends the map.
\<close>

primrec map_toActionObject ::
  "'c val list \<Rightarrow> (string \<rightharpoonup> 'c val) option \<Rightarrow> error + 'c val list" where
  "map_toActionObject [] actionMap = Inr []"
| "map_toActionObject (a # as) actionMap = (case toActionObject a actionMap of
      Inl e \<Rightarrow> Inl e
    | Inr x \<Rightarrow> (case map_toActionObject as actionMap of
          Inl e \<Rightarrow> Inl e
        | Inr xs \<Rightarrow> Inr (x # xs)))"

definition toActionObjects :: "'c val \<Rightarrow> (string \<rightharpoonup> 'c val) option \<Rightarrow> error + 'c val list" where
  "toActionObjects action actionMap =
     (if \<not> truthy action then Inr []
      else map_toActionObject (case action of Arr xs \<Rightarrow> xs | _ \<Rightarrow> [action]) actionMap)"

section \<open>Helpers of utils.ts\<close>

text \<open>
  Modelled from the spec: \<open>toEventObject\<close> of utils.ts, which is not part of the sources
  at hand. An event is "a string type or event object"; a string stands for the event
  object of that type.
\<close>

definition toEventObject :: "'c val \<Rightarrow> 'c val" where
  "toEventObject event = (case event of Str _ \<Rightarrow> Obj [(''type'', event)] | _ \<Rightarrow> event)"

text \<open>
  Modelled from the spec: \<open>toSCXMLEvent\<close> of utils.ts, which is not part of the sources
  at hand. It "wraps the event into an Event Envelope", which carries the event name and
  the payload; the resolved send action keeps "both the envelope and its raw payload".
\<close>

definition toSCXMLEvent :: "'c val \<Rightarrow> 'c val" where
  "toSCXMLEvent event =
     (let eventObject = toEventObject event
      in Obj [(''name'', get eventObject ''type''), (''data'', eventObject)])"

text \<open>
  Modelled from the spec: \<open>getEventType\<close> of utils.ts, which is not part of the sources
  at hand: "the event's type string".
\<close>

definition getEventType :: "'c val \<Rightarrow> 'c val" where
  "getEventType event = (case event of Str _ \<Rightarrow> event | _ \<Rightarrow> get event ''type'')"

text \<open>
  Modelled from the spec: \<open>partition\<close> of utils.ts, which is not part of the sources at
  hand: "partition, preserving each sublist's relative order", into the items that
  satisfy the predicate and all the others.
\<close>

definition partition_js :: "'a list \<Rightarrow> ('a \<Rightarrow> bool) \<Rightarrow> 'a list \<times> 'a list" where
  "partition_js items predicate = (filter predicate items, filter (\<lambda>x. \<not> predicate x) items)"

text \<open>
  Modelled from the spec: \<open>flatten\<close> of utils.ts, which is not part of the sources at
  hand: "flatten the per-action results (some kinds contribute zero, one, or many
  entries) into one ordered sequence". A result that is an array contributes its
  entries, any other result itself.
\<close>

definition flatten :: "'c val list \<Rightarrow> 'c val list" where
  "flatten results = concat (map (\<lambda>r. case r of Arr xs \<Rightarrow> xs | _ \<Rightarrow> [r]) results)"

text \<open>
  Modelled from the spec: \<open>toArray\<close> of utils.ts, which is not part of the sources at
  hand: "a single action or an ordered list of actions (absent input: empty list)".
\<close>

definition toArray :: "'c val \<Rightarrow> 'c val list" where
  "toArray v = (case v of Arr xs \<Rightarrow> xs | Undefined \<Rightarrow> [] | _ \<Rightarrow> [v])"

text \<open>
  Modelled from the spec: \<open>toGuard\<close> of utils.ts, which is not part of the sources at
  hand. A branch may have no guard; a guard reference is a name looked up in the guard
  registry, and "an unregistered guard reference is treated as satisfied (Choose proceeds
  as if no guard were present)". Everything else is passed to the guard evaluator as it
  is.
\<close>

definition toGuard :: "'c val \<Rightarrow> (string \<rightharpoonup> 'c val) option \<Rightarrow> 'c val" where
  "toGuard condition guardMap = (case condition of
      Undefined \<Rightarrow> Undefined
    | Str _ \<Rightarrow> (if isUndefined (lookup guardMap condition) then Undefined else condition)
    | _ \<Rightarrow> condition)"

text \<open>
  Modelled from the spec: \<open>warn\<close> of utils.ts, which is not part of the sources at hand:
  a "non-fatal diagnostic", "advisory text sent to an external logging sink", emitted
  when the condition fails. The result is what the call adds to the sink.
\<close>

definition warn :: "bool \<Rightarrow> string \<Rightarrow> string list" where
  "warn condition message = (if condition then [] else [message])"

section \<open>The machine and the external collaborators\<close>

text \<open>
  What \<open>resolveActions\<close> reads of the \<open>StateNode\<close>: \<open>machine.id\<close> and the three
  registries \<open>machine.options.actions\<close>, \<open>.guards\<close> and \<open>.delays\<close>, each of which may be
  absent.
\<close>

record 'c machine =
  machine_id :: string
  options_actions :: "(string \<rightharpoonup> 'c val) option"
  options_guards :: "(string \<rightharpoonup> 'c val) option"
  options_delays :: "(string \<rightharpoonup> 'c val) option"

text \<open>
  \<open>updateContext\<close> and \<open>evaluateGuard\<close> of utils.ts and the flag \<open>IS_PRODUCTION\<close> of
  environment.ts are not part of the sources at hand: they are parameters. The type
  \<open>'s\<close> is that of \<open>currentState\<close>.
\<close>

record ('c, 's) env =
  IS_PRODUCTION :: bool
  updateContext :: "'c \<Rightarrow> scxml \<Rightarrow> 'c val list \<Rightarrow> 's \<Rightarrow> 'c"
  evaluateGuard :: "'c machine \<Rightarrow> 'c val \<Rightarrow> 'c \<Rightarrow> scxml \<Rightarrow> 's \<Rightarrow> bool"

section \<open>Action builders\<close>

definition send :: "'c val \<Rightarrow> 'c val \<Rightarrow> 'c val" where
  "send event options = Obj
     [(''to'', if truthy options then get options ''to'' else Undefined),
      (''type'', Str send_type),
      (''event'', if isFunction event then event else toEventObject event),
      (''delay'', if truthy options then get options ''delay'' else Undefined),
      (''id'',
        if truthy options \<and> \<not> isUndefined (get options ''id'') then get options ''id''
        else if isFunction event then Str (fun_name event)
        else getEventType event)]"

definition raise :: "'c val \<Rightarrow> 'c val" where
  "raise event =
     (if \<not> isString event then send event (Obj [(''to'', Str Internal)])
      else Obj [(''type'', Str raise_type), (''event'', event)])"

definition sendParent :: "'c val \<Rightarrow> 'c val \<Rightarrow> 'c val" where
  "sendParent event options = send event (literal (props options) [(''to'', Str Parent)])"

text \<open>
  The target of \<open>respond\<close> is the function \<open>(_, __, { _event }) => _event.origin!\<close>; it
  is only ever called with its third argument.
\<close>

definition respond :: "'c val \<Rightarrow> 'c val \<Rightarrow> 'c val" where
  "respond event options = send event (literal (props options)
     [(''to'', Fun ''to'' ''(_, __, { _event }) => { return _event.origin; }''
        (\<lambda>_ _ m. case m of
            None \<Rightarrow> Undefined
          | Some mt \<Rightarrow> (case origin (event_meta mt) of None \<Rightarrow> Undefined | Some x \<Rightarrow> Str x)))])"

definition forwardTo :: "'c val \<Rightarrow> 'c val \<Rightarrow> 'c val" where
  "forwardTo target options =
     send (Fun [] ''(_, event) => event'' (\<lambda>_ event _. ofData event))
       (literal (props options) [(''to'', target)])"

definition assign :: "'c val \<Rightarrow> 'c val" where
  "assign assignment = Obj [(''type'', Str assign_type), (''assignment'', assignment)]"

definition pure :: "'c val \<Rightarrow> 'c val" where
  "pure getActions = Obj [(''type'', Str pure_type), (''get'', getActions)]"

text \<open>The builder \<open>choose\<close> (the name is taken by the binomial coefficient).\<close>

definition choose_action :: "'c val \<Rightarrow> 'c val" where
  "choose_action conds = Obj [(''type'', Str choose_type), (''conds'', conds)]"

section \<open>Per-kind resolvers\<close>

definition resolveRaise :: "'c val \<Rightarrow> 'c val" where
  "resolveRaise action =
     Obj [(''type'', Str raise_type), (''_event'', toSCXMLEvent (get action ''event''))]"

definition resolveSend ::
  "'c val \<Rightarrow> 'c \<Rightarrow> scxml \<Rightarrow> (string \<rightharpoonup> 'c val) option \<Rightarrow> 'c val" where
  "resolveSend action ctx ev delaysMap =
     (let mt = \<lparr>event_meta = ev\<rparr>;
          resolvedEvent = toSCXMLEvent
            (if isFunction (get action ''event'')
             then apply_fun (get action ''event'') ctx (data ev) (Some mt)
             else get action ''event'');
          resolvedDelay =
            (if isString (get action ''delay'') then
               (let configDelay = lookup delaysMap (get action ''delay'')
                in if isFunction configDelay
                   then apply_fun configDelay ctx (data ev) (Some mt)
                   else configDelay)
             else
               (if isFunction (get action ''delay'')
                then apply_fun (get action ''delay'') ctx (data ev) (Some mt)
                else get action ''delay''));
          resolvedTarget =
            (if isFunction (get action ''to'')
             then apply_fun (get action ''to'') ctx (data ev) (Some mt)
             else get action ''to'')
      in literal (props action)
           [(''to'', resolvedTarget),
            (''_event'', resolvedEvent),
            (''event'', get resolvedEvent ''data''),
            (''delay'', resolvedDelay)])"

definition resolveLog :: "'c val \<Rightarrow> 'c \<Rightarrow> scxml \<Rightarrow> error + 'c val" where
  "resolveLog action ctx ev =
     (case (if isString (get action ''expr'') then Inr (get action ''expr'')
            else call (get action ''expr'') ctx (data ev) (Some \<lparr>event_meta = ev\<rparr>)) of
        Inl e \<Rightarrow> Inl e
      | Inr v \<Rightarrow> Inr (literal (props action) [(''value'', v)]))"

section \<open>resolveActions\<close>

text \<open>
  \<open>Array.prototype.find\<close> with a callback that may throw: the first entry on which the
  callback is true, \<open>None\<close> (\<open>undefined\<close>) when there is none.
\<close>

primrec find_js :: "('a \<Rightarrow> error + bool) \<Rightarrow> 'a list \<Rightarrow> error + 'a option" where
  "find_js p [] = Inr None"
| "find_js p (x # xs) = (case p x of
      Inl e \<Rightarrow> Inl e
    | Inr b \<Rightarrow> if b then Inr (Some x) else find_js p xs)"

text \<open>
  The callback given to \<open>conds.find\<close>: reading \<open>condition.cond\<close> throws when the entry
  is \<open>undefined\<close>.
\<close>

definition condition_matches ::
  "('c, 's) env \<Rightarrow> 'c machine \<Rightarrow> 's \<Rightarrow> 'c \<Rightarrow> scxml \<Rightarrow> 'c val \<Rightarrow> error + bool" where
  "condition_matches env machine currentState updatedContext ev condition =
     (if isUndefined condition then Inl TypeError
      else
        (let guard = toGuard (get condition ''cond'') (options_guards machine)
         in Inr (\<not> truthy guard \<or> evaluateGuard env machine guard updatedContext ev currentState)))"

text \<open>
  The text of the diagnostic. It is emitted only for a delay that is a string (see
  \<open>resolveAction\<close>), so the template is written out for a string only.
\<close>

definition delay_message :: "'c val \<Rightarrow> string \<Rightarrow> string" where
  "delay_message delay mid =
     ''No delay reference for delay expression '' @ [CHR 0x27]
       @ (case delay of Str s \<Rightarrow> s | _ \<Rightarrow> []) @ [CHR 0x27]
       @ '' was found on machine '' @ [CHR 0x27] @ mid @ [CHR 0x27]"

text \<open>
  The end of the \<open>choose\<close> and \<open>pure\<close> cases, which is the same code twice: nothing
  for a falsy \<open>matchedActions\<close>; otherwise the recursive call \<open>resolve\<close> on the
  canonicalised actions, whose context replaces \<open>updatedContext\<close>.
\<close>

definition resolveMatched ::
  "('c \<Rightarrow> 'c val list \<Rightarrow> error + ('c val list \<times> 'c \<times> string list)) \<Rightarrow> 'c machine \<Rightarrow> 'c
     \<Rightarrow> 'c val \<Rightarrow> error + ('c val \<times> 'c \<times> string list)" where
  "resolveMatched resolve machine updatedContext matchedActions =
     (if \<not> truthy matchedActions then Inr (Arr [], updatedContext, [])
      else
        (case toActionObjects (Arr (toArray matchedActions)) (options_actions machine) of
           Inl e \<Rightarrow> Inl e
         | Inr actionObjects \<Rightarrow>
             (case resolve updatedContext actionObjects of
                Inl e \<Rightarrow> Inl e
              | Inr (resolved, ctx, warnings) \<Rightarrow> Inr (Arr resolved, ctx, warnings))))"

text \<open>
  The callback given to \<open>otherActions.map\<close>. It reads and writes the variable
  \<open>updatedContext\<close> of the enclosing call, and may write to the diagnostics sink: so it
  takes the context and returns its result, the context afterwards and the diagnostics
  it emitted. \<open>resolve\<close> stands for the recursive call of \<open>resolveActions\<close>.
\<close>

definition resolveAction ::
  "('c \<Rightarrow> 'c val list \<Rightarrow> error + ('c val list \<times> 'c \<times> string list)) \<Rightarrow> ('c, 's) env
     \<Rightarrow> 'c machine \<Rightarrow> 's \<Rightarrow> scxml \<Rightarrow> 'c \<Rightarrow> 'c val \<Rightarrow> error + ('c val \<times> 'c \<times> string list)" where
  "resolveAction resolve env machine currentState ev updatedContext actionObject =
     (if typeIs actionObject raise_type then
        Inr (resolveRaise actionObject, updatedContext, [])
      else if typeIs actionObject send_type then
        (let sendAction = actionObject;
             resolvedSendAction = resolveSend sendAction updatedContext ev (options_delays machine)
         in Inr (resolvedSendAction, updatedContext,
              if \<not> IS_PRODUCTION env then
                warn (\<not> isString (get sendAction ''delay'')
                      \<or> isNumber (get resolvedSendAction ''delay''))
                  (delay_message (get sendAction ''delay'') (machine_id machine))
              else []))
      else if typeIs actionObject log_type then
        (case resolveLog actionObject updatedContext ev of
           Inl e \<Rightarrow> Inl e
         | Inr r \<Rightarrow> Inr (r, updatedContext, []))
      else if typeIs actionObject choose_type then
        (case get actionObject ''conds'' of
           Arr conds \<Rightarrow>
             (case find_js (condition_matches env machine currentState updatedContext ev) conds of
                Inl e \<Rightarrow> Inl e
              | Inr found \<Rightarrow>
                  resolveMatched resolve machine updatedContext
                    (case found of None \<Rightarrow> Undefined | Some condition \<Rightarrow> get condition ''actions''))
         | _ \<Rightarrow> Inl TypeError)
      else if typeIs actionObject pure_type then
        (case call (get actionObject ''get'') updatedContext (data ev) None of
           Inl e \<Rightarrow> Inl e
         | Inr matchedActions \<Rightarrow> resolveMatched resolve machine updatedContext matchedActions)
      else
        (case toActionObject actionObject (options_actions machine) of
           Inl e \<Rightarrow> Inl e
         | Inr a \<Rightarrow> Inr (a, updatedContext, [])))"

text \<open>
  \<open>otherActions.map(callback)\<close>, with the variable \<open>updatedContext\<close> threaded from one
  call of the callback to the next and the diagnostics collected in order.
\<close>

primrec map_actions ::
  "('c \<Rightarrow> 'a \<Rightarrow> error + ('b \<times> 'c \<times> string list)) \<Rightarrow> 'c \<Rightarrow> 'a list
     \<Rightarrow> error + ('b list \<times> 'c \<times> string list)" where
  "map_actions f ctx [] = Inr ([], ctx, [])"
| "map_actions f ctx (x # xs) = (case f ctx x of
      Inl e \<Rightarrow> Inl e
    | Inr (y, ctx', w) \<Rightarrow> (case map_actions f ctx' xs of
          Inl e \<Rightarrow> Inl e
        | Inr (ys, ctx'', w') \<Rightarrow> Inr (y # ys, ctx'', w @ w')))"

text \<open>
  \<open>resolveActions\<close>. The registry of actions may name an action that contains itself,
  and then the recursion does not end: the first argument bounds the depth of the
  recursive calls, and \<open>OutOfFuel\<close> says that the bound was reached. The partition
  callback reads \<open>action.type\<close>, which throws on an entry that is \<open>undefined\<close>. The
  result is the resolved actions, the context and the diagnostics emitted.
\<close>

primrec resolveActions ::
  "nat \<Rightarrow> ('c, 's) env \<Rightarrow> 'c machine \<Rightarrow> 's \<Rightarrow> 'c \<Rightarrow> scxml \<Rightarrow> 'c val list
     \<Rightarrow> error + ('c val list \<times> 'c \<times> string list)" where
  "resolveActions 0 env machine currentState currentContext ev actions = Inl OutOfFuel"
| "resolveActions (Suc fuel) env machine currentState currentContext ev actions =
     (if list_ex isUndefined actions then Inl TypeError
      else
        (let (assignActions, otherActions) =
               partition_js actions (\<lambda>action. typeIs action assign_type);
             updatedContext =
               (if assignActions \<noteq> []
                then updateContext env currentContext ev assignActions currentState
                else currentContext)
         in case map_actions
                   (resolveAction
                      (\<lambda>ctx nested. resolveActions fuel env machine currentState ctx ev nested)
                      env machine currentState ev)
                   updatedContext otherActions of
              Inl e \<Rightarrow> Inl e
            | Inr (results, ctx, warnings) \<Rightarrow> Inr (flatten results, ctx, warnings)))"

section \<open>An instance for the examples\<close>

text \<open>
  The examples need a context type and the two collaborators. The context is a number,
  the \<open>count\<close>. The context updater folds the assign actions in order, each of which
  carries a function from the context to the new count; the guard evaluator calls the
  predicate that the guard registry holds under the guard's name.
\<close>

definition count_updateContext :: "int \<Rightarrow> scxml \<Rightarrow> int val list \<Rightarrow> unit \<Rightarrow> int" where
  "count_updateContext ctx ev assignActions st =
     fold (\<lambda>a c. case apply_fun (get a ''assignment'') c (data ev) None of
                    Num n \<Rightarrow> n
                  | _ \<Rightarrow> c)
       assignActions ctx"

definition named_evaluateGuard ::
  "int machine \<Rightarrow> int val \<Rightarrow> int \<Rightarrow> scxml \<Rightarrow> unit \<Rightarrow> bool" where
  "named_evaluateGuard machine guard ctx ev st =
     truthy (apply_fun (lookup (options_guards machine) guard) ctx (data ev) None)"

definition ex_env :: "(int, unit) env" where
  "ex_env = \<lparr>IS_PRODUCTION = False, updateContext = count_updateContext,
             evaluateGuard = named_evaluateGuard\<rparr>"

definition isEven :: "int val" where
  "isEven = Fun ''isEven'' ''ctx => ctx.count % 2 === 0''
     (\<lambda>ctx _ _. if ctx mod 2 = 0 then Num 1 else Num 0)"

definition ex_machine :: "int machine" where
  "ex_machine = \<lparr>machine_id = ''m'', options_actions = None,
     options_guards = Some [''isEven'' \<mapsto> isEven],
     options_delays = Some [''LONG'' \<mapsto> Num 1000]\<rparr>"

definition ex_event :: scxml where
  "ex_event = \<lparr>name = ''GO'', data = DObj [(''type'', DStr ''GO'')], origin = Some ''parent''\<rparr>"

definition increment :: "int val" where
  "increment = Fun [] ''ctx => ctx.count + 1'' (\<lambda>ctx _ _. Num (ctx + 1))"

definition times_ten :: "int val" where
  "times_ten = Fun [] ''ctx => ctx.count * 10'' (\<lambda>ctx _ _. Num (ctx * 10))"

definition log_count :: "int val" where
  "log_count = Obj [(''type'', Str log_type),
     (''expr'', Fun ''expr'' ''ctx => ctx.count'' (\<lambda>ctx _ _. Num ctx))]"

text \<open>
  A send action whose delay is computed from the context; a choose action whose first
  branch, for an even count, multiplies the count by ten, and whose second branch adds
  one; a pure action that generates an assign action, which adds one, and a log action;
  and what \<open>log_count\<close> resolves to in the context \<open>k\<close>.
\<close>

definition send_ping :: "int val" where
  "send_ping = send (Str ''PING'') (Obj [(''delay'', times_ten)])"

definition choose_even :: "int val" where
  "choose_even = choose_action (Arr
     [Obj [(''cond'', Str ''isEven''), (''actions'', Arr [assign times_ten])],
      Obj [(''actions'', Arr [assign increment])]])"

definition pure_more :: "int val" where
  "pure_more = pure (Fun ''get'' ''ctx => [assign(ctx => ctx.count + 1), log(ctx => ctx.count)]''
     (\<lambda>ctx _ _. Arr [assign increment, log_count]))"

definition logged :: "int \<Rightarrow> int val" where
  "logged k = Obj [(''type'', Str log_type),
     (''expr'', Fun ''expr'' ''ctx => ctx.count'' (\<lambda>ctx _ _. Num ctx)),
     (''value'', Num k)]"

section \<open>The properties in the specification's words\<close>

text \<open>
  "The context obtained after folding all top-level assign actions" of a list: the
  context updater applied to the assign actions of the list, in their order; the input
  context when the list has none.
\<close>

definition assigned_context ::
  "('c, 's) env \<Rightarrow> 'c \<Rightarrow> scxml \<Rightarrow> 's \<Rightarrow> 'c val list \<Rightarrow> 'c" where
  "assigned_context env ctx ev st actions =
     (if filter (\<lambda>a. typeIs a assign_type) actions = [] then ctx
      else updateContext env ctx ev (filter (\<lambda>a. typeIs a assign_type) actions) st)"

text \<open>What a call returns, when it returns: the resolved actions and the context.\<close>

definition returned ::
  "error + ('a \<times> 'c \<times> string list) \<Rightarrow> ('a \<times> 'c) option" where
  "returned x = (case x of Inl _ \<Rightarrow> None | Inr (r, c, w) \<Rightarrow> Some (r, c))"

text \<open>
  "A branch with no guard always matches"; a branch with a guard matches when the guard
  evaluator says so on the context, the event and the current state.
\<close>

definition branch_matches ::
  "('c, 's) env \<Rightarrow> 'c machine \<Rightarrow> 's \<Rightarrow> 'c \<Rightarrow> scxml \<Rightarrow> 'c val \<Rightarrow> bool" where
  "branch_matches env machine st ctx ev branch =
     (let guard = toGuard (get branch ''cond'') (options_guards machine)
      in if truthy guard then evaluateGuard env machine guard ctx ev st else True)"

text \<open>
  The actions of the "selected/generated branch" of a choose or pure entry in the context
  \<open>ctx\<close>: of a choose entry, the actions of the first branch, in declared order, that
  matches in \<open>ctx\<close> (\<open>undefined\<close> when none does); of a pure entry, what its generating
  function returns on \<open>ctx\<close> and the event payload.
\<close>

definition selected_actions ::
  "('c, 's) env \<Rightarrow> 'c machine \<Rightarrow> 's \<Rightarrow> scxml \<Rightarrow> 'c \<Rightarrow> 'c val \<Rightarrow> 'c val" where
  "selected_actions env machine st ev ctx a =
     (if typeIs a choose_type then
        (case get a ''conds'' of
           Arr conds \<Rightarrow>
             (case find (branch_matches env machine st ctx ev) conds of
                None \<Rightarrow> Undefined
              | Some branch \<Rightarrow> get branch ''actions'')
         | _ \<Rightarrow> Undefined)
      else apply_fun (get a ''get'') ctx (data ev) None)"

text \<open>
  "The resolved output of its selected/generated branch", with the context after it:
  nothing, and the context as it is, when there is no branch; else what the resolution
  \<open>resolve\<close> makes, from the context \<open>ctx\<close>, of the actions of the branch canonicalised
  against the action registry.
\<close>

definition branch_output ::
  "('c \<Rightarrow> 'c val list \<Rightarrow> ('c val list \<times> 'c) option) \<Rightarrow> ('c, 's) env \<Rightarrow> 'c machine \<Rightarrow> 's
     \<Rightarrow> scxml \<Rightarrow> 'c \<Rightarrow> 'c val \<Rightarrow> ('c val list \<times> 'c) option" where
  "branch_output resolve env machine st ev ctx a =
     (let branch = selected_actions env machine st ev ctx a
      in if \<not> truthy branch then Some ([], ctx)
         else (case toActionObjects branch (options_actions machine) of
                 Inl _ \<Rightarrow> None
               | Inr nested \<Rightarrow> resolve ctx nested))"

text \<open>
  "The context is replaced by the context that the recursive resolution of a matched
  Choose/Pure branch returns, once per such branch": the contexts that the choose and
  pure entries of a list with a branch put in the place of the context, one after the
  other from the context \<open>ctx\<close>, each the context that \<open>resolveActions\<close> returns for
  the branch.
\<close>

primrec branch_contexts ::
  "nat \<Rightarrow> ('c, 's) env \<Rightarrow> 'c machine \<Rightarrow> 's \<Rightarrow> scxml \<Rightarrow> 'c \<Rightarrow> 'c val list \<Rightarrow> 'c list" where
  "branch_contexts n env machine st ev ctx [] = []"
| "branch_contexts n env machine st ev ctx (a # as) =
     (if (typeIs a choose_type \<or> typeIs a pure_type)
         \<and> truthy (selected_actions env machine st ev ctx a) then
        (case branch_output (\<lambda>c nested. returned (resolveActions n env machine st c ev nested))
                env machine st ev ctx a of
           None \<Rightarrow> []
         | Some (rs, c) \<Rightarrow> c # branch_contexts n env machine st ev c as)
      else branch_contexts n env machine st ev ctx as)"

text \<open>
  The "resolved counterpart" of an entry that is neither an assign nor a choose nor a
  pure action, in the context \<open>ctx\<close>: the resolved raise, send or log action, and for any
  other kind the action canonicalised against the action registry.
\<close>

definition resolved_counterpart ::
  "'c machine \<Rightarrow> scxml \<Rightarrow> 'c \<Rightarrow> 'c val \<Rightarrow> 'c val option" where
  "resolved_counterpart machine ev ctx a =
     (if typeIs a raise_type then Some (resolveRaise a)
      else if typeIs a send_type then Some (resolveSend a ctx ev (options_delays machine))
      else if typeIs a log_type then
        (case resolveLog a ctx ev of Inl _ \<Rightarrow> None | Inr r \<Rightarrow> Some r)
      else (case toActionObject a (options_actions machine) of Inl _ \<Rightarrow> None | Inr r \<Rightarrow> Some r))"

text \<open>
  "The input sequence with each Choose/Pure entry replaced in place by the resolved
  output of its selected/generated branch (itself order-preserved), and every other entry
  mapped in place to its resolved counterpart": what one entry of the input puts in the
  output in the context \<open>ctx\<close>, and the context after it. An assign entry puts nothing
  in the output.
\<close>

definition entry_output ::
  "('c \<Rightarrow> 'c val list \<Rightarrow> ('c val list \<times> 'c) option) \<Rightarrow> ('c, 's) env \<Rightarrow> 'c machine \<Rightarrow> 's
     \<Rightarrow> scxml \<Rightarrow> 'c \<Rightarrow> 'c val \<Rightarrow> ('c val list \<times> 'c) option" where
  "entry_output resolve env machine st ev ctx a =
     (if typeIs a assign_type then Some ([], ctx)
      else if typeIs a choose_type \<or> typeIs a pure_type then
        branch_output resolve env machine st ev ctx a
      else map_option (\<lambda>r. ([r], ctx)) (resolved_counterpart machine ev ctx a))"

text \<open>The outputs of the entries, one after the other in the order of the input.\<close>

primrec in_order ::
  "('c \<Rightarrow> 'a \<Rightarrow> ('b list \<times> 'c) option) \<Rightarrow> 'c \<Rightarrow> 'a list \<Rightarrow> ('b list \<times> 'c) option" where
  "in_order f ctx [] = Some ([], ctx)"
| "in_order f ctx (a # as) = (case f ctx a of
      None \<Rightarrow> None
    | Some (r, ctx') \<Rightarrow> (case in_order f ctx' as of
          None \<Rightarrow> None
        | Some (rs, ctx'') \<Rightarrow> Some (r @ rs, ctx'')))"

text \<open>
  The output in the order of the input, to the depth \<open>n\<close> of the nesting: the branches
  are resolved in the same way, from the context that their own assign actions give.
\<close>

primrec spliced ::
  "nat \<Rightarrow> ('c, 's) env \<Rightarrow> 'c machine \<Rightarrow> 's \<Rightarrow> scxml \<Rightarrow> 'c \<Rightarrow> 'c val list
     \<Rightarrow> ('c val list \<times> 'c) option" where
  "spliced 0 env machine st ev ctx actions = None"
| "spliced (Suc n) env machine st ev ctx actions =
     in_order (entry_output (spliced n env machine st ev) env machine st ev)
       (assigned_context env ctx ev st actions) actions"

section \<open>Objects in a store\<close>

text \<open>
  To say which objects a call creates and which it writes, the objects are kept in a
  store and a value is a primitive or a reference to a cell of the store. An object cell
  holds its own enumerable properties and, apart, its own properties that are not
  enumerable (here only \<open>toString\<close>); a function cell holds the \<open>name\<close> and the source
  text of the function. A new cell is put at the end of the store, so its address is
  fresh.
\<close>

type_synonym addr = nat

datatype rval = RUndefined | RNum int | RStr string | Ref addr

datatype cell =
    ObjectCell "(string \<times> rval) list" "(string \<times> rval) list"
  | ArrayCell "rval list"
  | FunctionCell string string

type_synonym store = "cell list"












section \<open>resolveActions on the store\<close>























section \<open>What a call keeps of the store\<close>

text \<open>
  A cell is kept when it is what it was, except that an object may have got, lost or
  changed its own property \<open>toString\<close>; a store is kept when every cell of it is, at its
  address.
\<close>

definition kept :: "cell \<Rightarrow> cell \<Rightarrow> bool" where
  "kept c c' = (case c of
      ObjectCell ps hs \<Rightarrow>
        (case c' of
           ObjectCell ps' hs' \<Rightarrow>
             AList.delete ''toString'' ps' = AList.delete ''toString'' ps
             \<and> AList.delete ''toString'' hs' = AList.delete ''toString'' hs
         | _ \<Rightarrow> False)
    | _ \<Rightarrow> c' = c)"

definition store_kept :: "store \<Rightarrow> store \<Rightarrow> bool" where
  "store_kept s s' = (length s \<le> length s' \<and> list_all2 kept s (take (length s) s'))"




section \<open>An instance for the examples on the store\<close>






section \<open>Basic facts\<close>

declare resolveActions.simps(2) [simp del]

lemma isFunction_simps [simp]:
  "isFunction (Fun nm src f)" "\<not> isFunction Undefined" "\<not> isFunction (Num n)"
  "\<not> isFunction (Str s)" "\<not> isFunction (Arr xs)" "\<not> isFunction (Obj kvs)"
  by (simp_all add: isFunction_def)

lemma isString_simps [simp]:
  "isString (Str s)" "\<not> isString Undefined" "\<not> isString (Num n)"
  "\<not> isString (Fun nm src f)" "\<not> isString (Arr xs)" "\<not> isString (Obj kvs)"
  by (simp_all add: isString_def)

lemma isObject_simps [simp]:
  "isObject (Obj kvs)" "\<not> isObject Undefined" "\<not> isObject (Num n)"
  "\<not> isObject (Fun nm src f)" "\<not> isObject (Arr xs)" "\<not> isObject (Str s)"
  by (simp_all add: isObject_def)

lemma isUndefined_simps [simp]:
  "isUndefined Undefined" "\<not> isUndefined (Obj kvs)" "\<not> isUndefined (Num n)"
  "\<not> isUndefined (Fun nm src f)" "\<not> isUndefined (Arr xs)" "\<not> isUndefined (Str s)"
  by (simp_all add: isUndefined_def)

lemma isNumber_simps [simp]:
  "isNumber (Num n)" "\<not> isNumber Undefined" "\<not> isNumber (Obj kvs)"
  "\<not> isNumber (Fun nm src f)" "\<not> isNumber (Arr xs)" "\<not> isNumber (Str s)"
  by (simp_all add: isNumber_def)

lemma truthy_simps [simp]:
  "\<not> truthy Undefined" "truthy (Num n) \<longleftrightarrow> n \<noteq> 0" "truthy (Str s) \<longleftrightarrow> s \<noteq> []"
  "truthy (Arr xs)" "truthy (Obj kvs)" "truthy (Fun nm src f)"
  by (simp_all add: truthy_def)

lemma isUndefined_iff: "isUndefined v \<longleftrightarrow> v = Undefined"
  by (cases v) simp_all

lemma isObject_iff: "isObject v \<longleftrightarrow> (\<exists>kvs. v = Obj kvs)"
  by (cases v) simp_all

lemma apply_fun_Fun [simp]: "apply_fun (Fun nm src f) ctx d m = f ctx d m"
  by (simp add: apply_fun_def)

lemma get_Obj: "get (Obj kvs) k = (case map_of kvs k of Some x \<Rightarrow> x | None \<Rightarrow> Undefined)"
  by (simp add: get_def)

lemma get_not_Obj [simp]:
  "get Undefined k = Undefined" "get (Num n) k = Undefined" "get (Str s) k = Undefined"
  "get (Arr xs) k = Undefined" "get (Fun nm src f) k = Undefined"
  by (simp_all add: get_def)

lemma get_Nil [simp]: "get (Obj []) k = Undefined"
  by (simp add: get_def)

lemma get_Cons [simp]: "get (Obj ((k', v) # kvs)) k = (if k = k' then v else get (Obj kvs) k)"
  by (simp add: get_def)

lemma props_Obj [simp]: "props (Obj kvs) = kvs"
  by (simp add: props_def)

lemma props_Undefined [simp]: "props Undefined = []"
  by (simp add: props_def)

lemma get_update: "get (Obj (AList.update k v kvs)) k' = (if k' = k then v else get (Obj kvs) k')"
  by (simp add: get_def update_conv')

lemma get_props: "isObject v \<Longrightarrow> get (Obj (props v)) k = get v k"
  by (cases v) simp_all

lemma typeIs_Obj:
  "typeIs (Obj kvs) t \<longleftrightarrow> get (Obj kvs) ''type'' = Str t"
  by (auto simp: typeIs_def split: val.splits)

lemma typeIs_iff: "typeIs v t \<longleftrightarrow> get v ''type'' = Str t"
  by (auto simp: typeIs_def split: val.splits)

lemma typeIs_unique: "typeIs v t \<Longrightarrow> typeIs v t' \<Longrightarrow> t = t'"
  by (simp add: typeIs_iff)


lemma action_types_distinct:
  "raise_type \<noteq> send_type" "raise_type \<noteq> log_type" "raise_type \<noteq> assign_type"
  "raise_type \<noteq> choose_type" "raise_type \<noteq> pure_type" "send_type \<noteq> log_type"
  "send_type \<noteq> assign_type" "send_type \<noteq> choose_type" "send_type \<noteq> pure_type"
  "log_type \<noteq> assign_type" "log_type \<noteq> choose_type" "log_type \<noteq> pure_type"
  "assign_type \<noteq> choose_type" "assign_type \<noteq> pure_type" "choose_type \<noteq> pure_type"
  by (simp_all add: raise_type_def send_type_def log_type_def assign_type_def choose_type_def
      pure_type_def)

lemmas types_distinct = action_types_distinct action_types_distinct [THEN not_sym]

lemma typeIs_other: "typeIs v t \<Longrightarrow> t' \<noteq> t \<Longrightarrow> \<not> typeIs v t'"
  by (auto simp: typeIs_iff)



lemma literal_Nil [simp]: "literal base [] = Obj base"
  by (simp add: literal_def)

lemma literal_Cons [simp]: "literal base ((k, v) # es) = literal (AList.update k v base) es"
  by (simp add: literal_def)

lemma isObject_literal [simp]: "isObject (literal base es)"
  by (simp add: literal_def)

lemma get_literal_other: "k \<notin> fst ` set es \<Longrightarrow> get (literal base es) k = get (Obj base) k"
  by (induction es arbitrary: base) (auto simp: get_update)

text \<open>The unfoldings that evaluate the model on a concrete input.\<close>

lemmas eval_defs =
  toActionObject_def toActionObjects_def defineToString_def lookup_def call_def
  toEventObject_def toSCXMLEvent_def getEventType_def partition_js_def flatten_def toArray_def
  toGuard_def warn_def delay_message_def send_def sendParent_def respond_def
  forwardTo_def assign_def pure_def choose_action_def resolveRaise_def resolveSend_def
  resolveLog_def condition_matches_def resolveMatched_def resolveAction_def typeIs_def
  fun_name_def raise_type_def send_type_def log_type_def assign_type_def choose_type_def
  pure_type_def Parent_def Internal_def Let_def resolveActions.simps(2)
  assigned_context_def entry_output_def returned_def branch_matches_def selected_actions_def
  branch_output_def resolved_counterpart_def

lemmas example_defs =
  count_updateContext_def named_evaluateGuard_def ex_env_def isEven_def ex_machine_def
  ex_event_def increment_def times_ten_def log_count_def

section \<open>toActionObject on an object\<close>




section \<open>The send resolver\<close>

lemma get_resolveSend_delay:
  "get (resolveSend action ctx ev delaysMap) ''delay'' =
     (if isString (get action ''delay'') then
        (if isFunction (lookup delaysMap (get action ''delay''))
         then apply_fun (lookup delaysMap (get action ''delay'')) ctx (data ev)
                (Some \<lparr>event_meta = ev\<rparr>)
         else lookup delaysMap (get action ''delay''))
      else
        (if isFunction (get action ''delay'')
         then apply_fun (get action ''delay'') ctx (data ev) (Some \<lparr>event_meta = ev\<rparr>)
         else get action ''delay''))"
  by (simp add: resolveSend_def Let_def get_update)

lemma get_resolveSend_to:
  "get (resolveSend action ctx ev delaysMap) ''to'' =
     (if isFunction (get action ''to'')
      then apply_fun (get action ''to'') ctx (data ev) (Some \<lparr>event_meta = ev\<rparr>)
      else get action ''to'')"
  by (simp add: resolveSend_def Let_def get_update)

lemma get_resolveSend_type: "get (resolveSend action ctx ev delaysMap) ''type'' = get action ''type''"
  by (cases action) (simp_all add: resolveSend_def Let_def get_update props_def)

lemma isObject_resolveSend [simp]: "isObject (resolveSend action ctx ev delaysMap)"
  by (simp add: resolveSend_def Let_def)

lemma delay_num:
  "get action ''delay'' = Num n \<Longrightarrow> get (resolveSend action ctx ev dm) ''delay'' = Num n"
  by (simp add: get_resolveSend_delay)

lemma delay_named_value:
  "get action ''delay'' = Str d \<Longrightarrow> reg d = Some v \<Longrightarrow> \<not> isFunction v
     \<Longrightarrow> get (resolveSend action ctx ev (Some reg)) ''delay'' = v"
  by (simp add: get_resolveSend_delay lookup_def)

lemma delay_named_function:
  "get action ''delay'' = Str d \<Longrightarrow> reg d = Some (Fun nm src f)
     \<Longrightarrow> get (resolveSend action ctx ev (Some reg)) ''delay''
           = f ctx (data ev) (Some \<lparr>event_meta = ev\<rparr>)"
  by (simp add: get_resolveSend_delay lookup_def)

lemma delay_named_absent:
  "get action ''delay'' = Str d \<Longrightarrow> dm = None \<or> (\<exists>reg. dm = Some reg \<and> reg d = None)
     \<Longrightarrow> get (resolveSend action ctx ev dm) ''delay'' = Undefined"
  by (auto simp add: get_resolveSend_delay lookup_def)

lemma delay_function:
  "get action ''delay'' = Fun nm src f
     \<Longrightarrow> get (resolveSend action ctx ev dm) ''delay'' = f ctx (data ev) (Some \<lparr>event_meta = ev\<rparr>)"
  by (simp add: get_resolveSend_delay)

lemma resolveAction_send:
  "typeIs action send_type \<Longrightarrow>
     resolveAction resolve env machine st ev ctx action
       = Inr (resolveSend action ctx ev (options_delays machine), ctx,
            if \<not> IS_PRODUCTION env then
              warn (\<not> isString (get action ''delay'')
                    \<or> isNumber (get (resolveSend action ctx ev (options_delays machine)) ''delay''))
                (delay_message (get action ''delay'') (machine_id machine))
            else [])"
  by (simp add: resolveAction_def typeIs_other [of action send_type] types_distinct Let_def)

text \<open>
  C6. The resolved delay of a send action: a number stays as it is; a name found in the
  delay registry gives the registered value, or what the registered function returns on
  (context, event payload, meta); a name that is not registered gives \<open>undefined\<close>, and
  outside production the diagnostic with the delay's name and the machine's id is
  emitted, the resolved action and the context being the same in both modes; a function
  gives what it returns.
\<close>

theorem resolveSend_delay_table:
  "(get action ''delay'' = Num n \<longrightarrow>
      get (resolveSend action ctx ev (options_delays machine)) ''delay'' = Num n)
 \<and> (get action ''delay'' = Str d \<and> options_delays machine = Some reg \<and> reg d = Some v
        \<and> \<not> isFunction v \<longrightarrow>
      get (resolveSend action ctx ev (options_delays machine)) ''delay'' = v)
 \<and> (get action ''delay'' = Str d \<and> options_delays machine = Some reg
        \<and> reg d = Some (Fun nm src f) \<longrightarrow>
      get (resolveSend action ctx ev (options_delays machine)) ''delay''
        = f ctx (data ev) (Some \<lparr>event_meta = ev\<rparr>))
 \<and> (get action ''delay'' = Str d
        \<and> (options_delays machine = None
             \<or> (\<exists>reg. options_delays machine = Some reg \<and> reg d = None)) \<longrightarrow>
      get (resolveSend action ctx ev (options_delays machine)) ''delay'' = Undefined
      \<and> (typeIs action send_type \<longrightarrow>
           resolveAction resolve env machine st ev ctx action
             = Inr (resolveSend action ctx ev (options_delays machine), ctx,
                 if IS_PRODUCTION env then []
                 else [''No delay reference for delay expression '' @ [CHR 0x27] @ d @ [CHR 0x27]
                         @ '' was found on machine '' @ [CHR 0x27] @ machine_id machine
                         @ [CHR 0x27]])))
 \<and> (get action ''delay'' = Fun nm src f \<longrightarrow>
      get (resolveSend action ctx ev (options_delays machine)) ''delay''
        = f ctx (data ev) (Some \<lparr>event_meta = ev\<rparr>))"
proof (intro conjI impI)
  show "get (resolveSend action ctx ev (options_delays machine)) ''delay'' = Num n"
    if "get action ''delay'' = Num n"
    using that by (rule delay_num)
  show "get (resolveSend action ctx ev (options_delays machine)) ''delay'' = v"
    if "get action ''delay'' = Str d \<and> options_delays machine = Some reg \<and> reg d = Some v
        \<and> \<not> isFunction v"
    using that delay_named_value [of action d reg v ctx ev] by simp
  show "get (resolveSend action ctx ev (options_delays machine)) ''delay''
        = f ctx (data ev) (Some \<lparr>event_meta = ev\<rparr>)"
    if "get action ''delay'' = Str d \<and> options_delays machine = Some reg
        \<and> reg d = Some (Fun nm src f)"
    using that delay_named_function [of action d reg nm src f ctx ev] by simp
  show "get (resolveSend action ctx ev (options_delays machine)) ''delay''
        = f ctx (data ev) (Some \<lparr>event_meta = ev\<rparr>)"
    if "get action ''delay'' = Fun nm src f"
    using that by (rule delay_function)
next
  assume a: "get action ''delay'' = Str d
        \<and> (options_delays machine = None
             \<or> (\<exists>reg. options_delays machine = Some reg \<and> reg d = None))"
  then show u: "get (resolveSend action ctx ev (options_delays machine)) ''delay'' = Undefined"
    using delay_named_absent [of action d "options_delays machine" ctx ev] by blast
  assume "typeIs action send_type"
  then show "resolveAction resolve env machine st ev ctx action
             = Inr (resolveSend action ctx ev (options_delays machine), ctx,
                 if IS_PRODUCTION env then []
                 else [''No delay reference for delay expression '' @ [CHR 0x27] @ d @ [CHR 0x27]
                         @ '' was found on machine '' @ [CHR 0x27] @ machine_id machine
                         @ [CHR 0x27]])"
    using a u by (simp add: resolveAction_send warn_def delay_message_def)
qed

lemma send_string_delay:
  "s \<noteq> [] \<Longrightarrow> send (Str s) (Obj [(''delay'', d)]) =
     Obj [(''to'', Undefined), (''type'', Str send_type), (''event'', Obj [(''type'', Str s)]),
          (''delay'', d), (''id'', Str s)]"
  by (simp add: send_def toEventObject_def getEventType_def)

theorem resolveSend_delay_table_witness:
  "get (resolveSend (send (Str ''PING'') (Obj [(''delay'', Num 250)])) 1 ex_event
          (options_delays ex_machine)) ''delay'' = Num 250
 \<and> get (resolveSend (send (Str ''PING'') (Obj [(''delay'', Str ''LONG'')])) 1 ex_event
          (options_delays ex_machine)) ''delay'' = Num 1000
 \<and> get (resolveSend (send (Str ''PING'') (Obj [(''delay'', Str ''BACKOFF'')])) 3 ex_event
          (options_delays (ex_machine\<lparr>options_delays := Some [''BACKOFF'' \<mapsto> times_ten]\<rparr>)))
        ''delay'' = Num 30
 \<and> get (resolveSend (send (Str ''PING'') (Obj [(''delay'', Str ''SHORT'')])) 1 ex_event
          (options_delays ex_machine)) ''delay'' = Undefined
 \<and> resolveAction (\<lambda>_ _. Inl OutOfFuel) ex_env ex_machine ()
        ex_event 1 (send (Str ''PING'') (Obj [(''delay'', Str ''SHORT'')]))
      = Inr (resolveSend (send (Str ''PING'') (Obj [(''delay'', Str ''SHORT'')])) 1 ex_event
               (options_delays ex_machine), 1,
             [''No delay reference for delay expression '' @ [CHR 0x27] @ ''SHORT'' @ [CHR 0x27]
                @ '' was found on machine '' @ [CHR 0x27] @ ''m'' @ [CHR 0x27]])
 \<and> get (resolveSend (send (Str ''PING'') (Obj [(''delay'', times_ten)])) 3 ex_event
          (options_delays ex_machine)) ''delay'' = Num 30"
proof -
  let ?a = "\<lambda>d. send (Str ''PING'') (Obj [(''delay'', d)]) :: int val"
  let ?m = "ex_machine\<lparr>options_delays := Some [''BACKOFF'' \<mapsto> times_ten]\<rparr>"
  have d: "get (?a d) ''delay'' = d" and t: "typeIs (?a d) send_type" for d
    by (simp_all add: send_string_delay typeIs_iff)
  note T = resolveSend_delay_table
  have 1: "get (resolveSend (?a (Num 250)) 1 ex_event (options_delays ex_machine)) ''delay''
             = Num 250"
    using T [of "?a (Num 250)" 250 1 ex_event ex_machine] d by simp
  have 2: "get (resolveSend (?a (Str ''LONG'')) 1 ex_event (options_delays ex_machine)) ''delay''
             = Num 1000"
    using T [of "?a (Str ''LONG'')" _ 1 ex_event ex_machine "''LONG''"
        "[''LONG'' \<mapsto> Num 1000]" "Num 1000"] d
    by (simp add: ex_machine_def)
  have 3: "get (resolveSend (?a (Str ''BACKOFF'')) 3 ex_event (options_delays ?m)) ''delay''
             = Num 30"
    using T [of "?a (Str ''BACKOFF'')" _ 3 ex_event ?m "''BACKOFF''"
        "[''BACKOFF'' \<mapsto> times_ten]" _ "[]" "''ctx => ctx.count * 10''"
        "\<lambda>ctx _ _. Num (ctx * 10)"] d
    by (simp add: times_ten_def)
  have 4: "get (resolveSend (?a (Str ''SHORT'')) 1 ex_event (options_delays ex_machine)) ''delay''
             = Undefined
     \<and> resolveAction (\<lambda>_ _. Inl OutOfFuel) ex_env ex_machine () ex_event 1 (?a (Str ''SHORT''))
       = Inr (resolveSend (?a (Str ''SHORT'')) 1 ex_event (options_delays ex_machine), 1,
             [''No delay reference for delay expression '' @ [CHR 0x27] @ ''SHORT'' @ [CHR 0x27]
                @ '' was found on machine '' @ [CHR 0x27] @ ''m'' @ [CHR 0x27]])"
    using T [of "?a (Str ''SHORT'')" _ 1 ex_event ex_machine "''SHORT''" _ _ _ _ _
        "\<lambda>_ _. Inl OutOfFuel" ex_env "()"] d t
    by (simp add: ex_machine_def ex_env_def)
  have 5: "get (resolveSend (?a times_ten) 3 ex_event (options_delays ex_machine)) ''delay''
             = Num 30"
    using T [of "?a times_ten" _ 3 ex_event ex_machine _ _ _ "[]" "''ctx => ctx.count * 10''"
        "\<lambda>ctx _ _. Num (ctx * 10)"] d
    by (simp add: times_ten_def)
  from 1 2 3 4 5 show ?thesis by simp
qed

section \<open>The builders that are calls of send\<close>

lemma sendParent_plain: "sendParent e Undefined = send e (Obj [(''to'', Str Parent)])"
  by (simp add: sendParent_def)

lemma forwardTo_plain:
  "forwardTo t Undefined
     = send (Fun [] ''(_, event) => event'' (\<lambda>_ event _. ofData event)) (Obj [(''to'', t)])"
  by (simp add: forwardTo_def)

lemma send_function:
  "send (Fun nm src f) (Obj [(''to'', t)]) =
     Obj [(''to'', t), (''type'', Str send_type), (''event'', Fun nm src f),
          (''delay'', Undefined), (''id'', Str nm)]"
  by (simp add: send_def fun_name_def)

lemma resolveSend_function_event:
  "resolveSend (Obj [(''to'', t), (''type'', ty), (''event'', Fun nm src f),
                     (''delay'', Undefined), (''id'', i)]) ctx ev dm
   = resolveSend (Obj [(''to'', t), (''type'', ty), (''event'', Fun nm src' f),
                       (''delay'', Undefined), (''id'', i)]) ctx ev dm"
  by (simp add: resolveSend_def Let_def)

lemma get_send_to: "get (send e (literal (props opts) [(''to'', x)])) ''to'' = x"
  by (simp add: send_def get_update)

text \<open>
  C9. \<open>sendParent(e)\<close> resolves as \<open>send(e, {to: Parent})\<close> does, \<open>forwardTo(t)\<close> as
  \<open>send((_, evt) => evt, {to: t})\<close> does (whatever the text of the function), and the
  resolved target of \<open>respond(e)\<close> is the origin of the triggering event, \<open>undefined\<close>
  when it has none.
\<close>

theorem builder_equivalences:
  "resolveSend (sendParent e Undefined) ctx ev dm
     = resolveSend (send e (Obj [(''to'', Str Parent)])) ctx ev dm
 \<and> resolveSend (forwardTo t Undefined) ctx ev dm
     = resolveSend (send (Fun [] src (\<lambda>_ evt _. ofData evt)) (Obj [(''to'', t)])) ctx ev dm
 \<and> get (resolveSend (respond e opts) ctx ev dm) ''to''
     = (case origin ev of None \<Rightarrow> Undefined | Some x \<Rightarrow> Str x)"
proof (intro conjI)
  show "resolveSend (sendParent e Undefined) ctx ev dm
     = resolveSend (send e (Obj [(''to'', Str Parent)])) ctx ev dm"
    by (simp only: sendParent_plain)
  show "resolveSend (forwardTo t Undefined) ctx ev dm
     = resolveSend (send (Fun [] src (\<lambda>_ evt _. ofData evt)) (Obj [(''to'', t)])) ctx ev dm"
    unfolding forwardTo_plain send_function by (rule resolveSend_function_event)
  show "get (resolveSend (respond e opts) ctx ev dm) ''to''
     = (case origin ev of None \<Rightarrow> Undefined | Some x \<Rightarrow> Str x)"
    by (simp add: get_resolveSend_to respond_def get_send_to del: literal_Cons literal_Nil)
qed

section \<open>The choose case\<close>



lemma resolveAction_choose:
  "typeIs action choose_type \<Longrightarrow>
     resolveAction resolve env machine st ev ctx action =
       (case get action ''conds'' of
          Arr conds \<Rightarrow>
            (case find_js (condition_matches env machine st ctx ev) conds of
               Inl e \<Rightarrow> Inl e
             | Inr found \<Rightarrow>
                 resolveMatched resolve machine ctx
                   (case found of None \<Rightarrow> Undefined | Some condition \<Rightarrow> get condition ''actions''))
        | _ \<Rightarrow> Inl TypeError)"
  by (simp add: resolveAction_def typeIs_other [of action choose_type] types_distinct)

lemma resolveActions_Nil [simp]:
  "resolveActions (Suc k) env machine st ctx ev [] = Inr ([], ctx, [])"
  by (simp add: resolveActions.simps(2) partition_js_def flatten_def)

lemma toActionObjects_toArray:
  "truthy v \<Longrightarrow> toActionObjects (Arr (toArray v)) reg = toActionObjects v reg"
  by (cases v) (simp_all add: toActionObjects_def toArray_def)



lemma condition_matches_no_guard:
  "\<not> isUndefined b \<Longrightarrow> isUndefined (get b ''cond'')
     \<Longrightarrow> condition_matches env machine st ctx ev b = Inr True"
  by (simp add: condition_matches_def isUndefined_iff toGuard_def)




section \<open>A guard that is not registered\<close>

lemma get_delete: "get (Obj (AList.delete k kvs)) k' = (if k' = k then Undefined else get (Obj kvs) k')"
  by (simp add: get_def delete_conv')

lemma find_js_replace:
  assumes "p b = Inr True" and "p b' = Inr True" and "h b = h b'"
  shows "(case find_js p (pre @ b # post) of
            Inl e \<Rightarrow> Inl e
          | Inr found \<Rightarrow> F (case found of None \<Rightarrow> Undefined | Some c \<Rightarrow> h c))
       = (case find_js p (pre @ b' # post) of
            Inl e \<Rightarrow> Inl e
          | Inr found \<Rightarrow> F (case found of None \<Rightarrow> Undefined | Some c \<Rightarrow> h c))"
  using assms by (induction pre) (simp_all split: sum.splits)

lemma condition_matches_unregistered:
  assumes "get b ''cond'' = Str g"
    and "options_guards machine = None \<or> (\<exists>gm. options_guards machine = Some gm \<and> gm g = None)"
  shows "condition_matches env machine st ctx ev b = Inr True"
proof -
  from assms(1) have "\<not> isUndefined b"
    by (cases b) simp_all
  moreover from assms(2) have "lookup (options_guards machine) (Str g) = Undefined"
    by (auto simp: lookup_def)
  ultimately show ?thesis
    using assms(1) by (simp add: condition_matches_def toGuard_def)
qed

text \<open>
  C7. A branch of a choose action whose guard is a name that the guard registry does not
  hold (or when there is no guard registry) matches, as the same branch without the guard
  does, and the choose action resolves to what it resolves to with the guard removed from
  the branch: the same result, or the same error if another part of the resolution
  raises one.
\<close>

theorem unregistered_guard_satisfied:
  assumes "get (Obj kvs) ''cond'' = Str g"
    and "options_guards machine = None \<or> (\<exists>gm. options_guards machine = Some gm \<and> gm g = None)"
  shows "condition_matches env machine st ctx ev (Obj kvs) = Inr True
       \<and> condition_matches env machine st ctx ev (Obj (AList.delete ''cond'' kvs)) = Inr True
       \<and> resolveAction resolve env machine st ev ctx
            (choose_action (Arr (pre @ Obj kvs # post)))
         = resolveAction resolve env machine st ev ctx
            (choose_action (Arr (pre @ Obj (AList.delete ''cond'' kvs) # post)))"
proof (intro conjI)
  show 1: "condition_matches env machine st ctx ev (Obj kvs) = Inr True"
    using assms by (rule condition_matches_unregistered)
  show 2: "condition_matches env machine st ctx ev (Obj (AList.delete ''cond'' kvs)) = Inr True"
    by (simp add: condition_matches_no_guard get_delete)
  have ty: "typeIs (choose_action (Arr cs)) choose_type"
    and cs: "get (choose_action (Arr cs)) ''conds'' = Arr cs" for cs :: "'a val list"
    by (simp_all add: choose_action_def typeIs_iff)
  have a: "get (Obj kvs) ''actions'' = get (Obj (AList.delete ''cond'' kvs)) ''actions''"
    by (simp add: get_delete)
  show "resolveAction resolve env machine st ev ctx
            (choose_action (Arr (pre @ Obj kvs # post)))
         = resolveAction resolve env machine st ev ctx
            (choose_action (Arr (pre @ Obj (AList.delete ''cond'' kvs) # post)))"
    using find_js_replace [where p = "condition_matches env machine st ctx ev"
        and h = "\<lambda>c. get c ''actions''" and F = "resolveMatched resolve machine ctx"
        and pre = pre and post = post, OF 1 2 a]
    by (simp add: resolveAction_choose [OF ty] cs)
qed

theorem unregistered_guard_satisfied_witness:
  "get (Obj [(''cond'', Str ''isOdd''), (''actions'', Arr [log_count])]) ''cond'' = Str ''isOdd''
 \<and> (\<exists>gm. options_guards ex_machine = Some gm \<and> gm ''isOdd'' = None)
 \<and> condition_matches ex_env ex_machine () 2 ex_event
      (Obj [(''cond'', Str ''isOdd''), (''actions'', Arr [log_count])]) = Inr True
 \<and> resolveAction (\<lambda>c nested. resolveActions (Suc 0) ex_env ex_machine () c ex_event nested)
      ex_env ex_machine () ex_event 2
      (choose_action (Arr [Obj [(''cond'', Str ''isOdd''), (''actions'', Arr [log_count])]]))
   = resolveAction (\<lambda>c nested. resolveActions (Suc 0) ex_env ex_machine () c ex_event nested)
      ex_env ex_machine () ex_event 2
      (choose_action (Arr [Obj [(''actions'', Arr [log_count])]]))
 \<and> resolveAction (\<lambda>c nested. resolveActions (Suc 0) ex_env ex_machine () c ex_event nested)
      ex_env ex_machine () ex_event 2
      (choose_action (Arr [Obj [(''cond'', Str ''isOdd''), (''actions'', Arr [log_count])]]))
   = Inr (Arr [Obj [(''type'', Str log_type),
                    (''expr'', Fun ''expr'' ''ctx => ctx.count'' (\<lambda>ctx _ _. Num ctx)),
                    (''value'', Num 2)]], 2, [])"
proof -
  let ?kvs = "[(''cond'', Str ''isOdd''), (''actions'', Arr [log_count])] :: (string \<times> int val) list"
  let ?R = "\<lambda>c nested. resolveActions (Suc 0) ex_env ex_machine () c ex_event nested"
  have h1: "get (Obj ?kvs) ''cond'' = Str ''isOdd''"
    by simp
  have h2: "\<exists>gm. options_guards ex_machine = Some gm \<and> gm ''isOdd'' = None"
    by (simp add: ex_machine_def)
  then have h2': "options_guards ex_machine = None
      \<or> (\<exists>gm. options_guards ex_machine = Some gm \<and> gm ''isOdd'' = None)" ..
  note T = unregistered_guard_satisfied [OF h1 h2', where env = ex_env and st = "()" and ctx = 2
      and ev = ex_event and resolve = ?R and pre = "[]" and post = "[]"]
  have e: "resolveAction ?R ex_env ex_machine () ex_event 2
      (choose_action (Arr [Obj [(''actions'', Arr [log_count])]]))
   = Inr (Arr [Obj [(''type'', Str log_type),
                    (''expr'', Fun ''expr'' ''ctx => ctx.count'' (\<lambda>ctx _ _. Num ctx)),
                    (''value'', Num 2)]], 2, [])"
    by (simp add: eval_defs example_defs)
  from T h1 h2 e show ?thesis by simp
qed

section \<open>The threaded map and the callback\<close>

lemma map_actions_append:
  "map_actions f c (xs @ ys) =
     (case map_actions f c xs of
        Inl e \<Rightarrow> Inl e
      | Inr (rs, c', w) \<Rightarrow>
          (case map_actions f c' ys of
             Inl e \<Rightarrow> Inl e
           | Inr (rs', c'', w') \<Rightarrow> Inr (rs @ rs', c'', w @ w')))"
  by (induction xs arbitrary: c) (auto split: sum.splits)

lemma flatten_Nil [simp]: "flatten [] = []"
  by (simp add: flatten_def)

lemma flatten_Cons: "flatten (r # rs) = (case r of Arr xs \<Rightarrow> xs | _ \<Rightarrow> [r]) @ flatten rs"
  by (simp add: flatten_def)

lemma flatten_append [simp]: "flatten (xs @ ys) = flatten xs @ flatten ys"
  by (simp add: flatten_def)

lemma flatten_object: "isObject r \<Longrightarrow> flatten (r # rs) = r # flatten rs"
  by (cases r) (simp_all add: flatten_Cons)

lemma flatten_array [simp]: "flatten (Arr xs # rs) = xs @ flatten rs"
  by (simp add: flatten_Cons)

lemma resolveMatched_cases:
  assumes "resolveMatched resolve machine c v = Inr (r, c', w)"
  shows "(r = Arr [] \<and> c' = c \<and> w = [])
       \<or> (\<exists>acts res. toActionObjects (Arr (toArray v)) (options_actions machine) = Inr acts
             \<and> resolve c acts = Inr (res, c', w) \<and> r = Arr res)"
  using assms by (auto simp: resolveMatched_def split: if_splits sum.splits)

lemma resolveAction_raise:
  "typeIs a raise_type \<Longrightarrow>
     resolveAction resolve env machine st ev c a = Inr (resolveRaise a, c, [])"
  by (simp add: resolveAction_def)

lemma resolveAction_log:
  "typeIs a log_type \<Longrightarrow>
     resolveAction resolve env machine st ev c a =
       (case resolveLog a c ev of Inl e \<Rightarrow> Inl e | Inr r \<Rightarrow> Inr (r, c, []))"
  by (simp add: resolveAction_def typeIs_other [of a log_type] types_distinct)

lemma resolveAction_pure:
  "typeIs a pure_type \<Longrightarrow>
     resolveAction resolve env machine st ev c a =
       (case call (get a ''get'') c (data ev) None of
          Inl e \<Rightarrow> Inl e
        | Inr matchedActions \<Rightarrow> resolveMatched resolve machine c matchedActions)"
  by (simp add: resolveAction_def typeIs_other [of a pure_type] types_distinct)

lemma resolveAction_default:
  "\<not> typeIs a raise_type \<Longrightarrow> \<not> typeIs a send_type \<Longrightarrow> \<not> typeIs a log_type
     \<Longrightarrow> \<not> typeIs a choose_type \<Longrightarrow> \<not> typeIs a pure_type \<Longrightarrow>
     resolveAction resolve env machine st ev c a =
       (case toActionObject a (options_actions machine) of
          Inl e \<Rightarrow> Inl e
        | Inr r \<Rightarrow> Inr (r, c, []))"
  by (simp add: resolveAction_def)

lemma resolveAction_branching:
  assumes "typeIs a choose_type \<or> typeIs a pure_type"
    and "resolveAction resolve env machine st ev c a = Inr (r, c', w)"
  shows "\<exists>v. resolveMatched resolve machine c v = Inr (r, c', w)"
  using assms
  by (auto simp: resolveAction_choose resolveAction_pure split: val.splits sum.splits)

lemma resolveAction_context:
  assumes "\<not> typeIs a choose_type" and "\<not> typeIs a pure_type"
    and "resolveAction resolve env machine st ev c a = Inr (r, c', w)"
  shows "c' = c"
proof -
  consider "typeIs a raise_type" | "typeIs a send_type" | "typeIs a log_type"
    | "\<not> typeIs a raise_type" "\<not> typeIs a send_type" "\<not> typeIs a log_type"
    by blast
  then show ?thesis
  proof cases
    case 1
    with assms(3) show ?thesis by (simp add: resolveAction_raise)
  next
    case 2
    with assms(3) show ?thesis by (simp add: resolveAction_send)
  next
    case 3
    with assms(3) show ?thesis by (auto simp: resolveAction_log split: sum.splits)
  next
    case 4
    with assms show ?thesis by (auto simp: resolveAction_default split: sum.splits)
  qed
qed

lemma isObject_resolveRaise [simp]: "isObject (resolveRaise a)"
  by (simp add: resolveRaise_def)

lemma resolveLog_result:
  "resolveLog a c ev = Inr r \<Longrightarrow> isObject r \<and> get r ''type'' = get a ''type''"
  by (cases a) (auto simp: resolveLog_def get_update props_def split: sum.splits)

lemma defineToString_Obj:
  "defineToString (Obj kvs) = Inr (Obj (AList.delete ''toString'' kvs))"
  by (simp add: defineToString_def)

lemma defineToString_literal:
  "defineToString (literal base es) = Inr (Obj (AList.delete ''toString'' (props (literal base es))))"
  by (simp add: defineToString_def literal_def)

lemma typeIs_delete_toString:
  "typeIs (Obj (AList.delete ''toString'' kvs)) t \<longleftrightarrow> typeIs (Obj kvs) t"
  by (simp add: typeIs_iff get_delete)

lemma defineToString_Inr:
  "defineToString v = Inr r \<Longrightarrow> isObject r \<and> isObject v \<and> (\<forall>t. typeIs r t \<longleftrightarrow> typeIs v t)"
  by (cases v) (auto simp: defineToString_def typeIs_delete_toString)

lemma toActionObject_isObject: "toActionObject a reg = Inr r \<Longrightarrow> isObject r"
  by (cases a)
    (auto simp: toActionObject_def Let_def dest: defineToString_Inr split: if_splits)

lemma map_toActionObject_isObject:
  "map_toActionObject as reg = Inr rs \<Longrightarrow> \<forall>r\<in>set rs. isObject r"
  by (induction as arbitrary: rs) (auto split: sum.splits dest: toActionObject_isObject)

lemma toActionObjects_isObject:
  "toActionObjects v reg = Inr rs \<Longrightarrow> \<forall>r\<in>set rs. isObject r"
  by (auto simp: toActionObjects_def split: if_splits dest: map_toActionObject_isObject)

lemma resolveAction_object:
  assumes "isObject a" and "\<not> typeIs a choose_type" and "\<not> typeIs a pure_type"
    and "resolveAction resolve env machine st ev c a = Inr (r, c', w)"
  shows "isObject r"
proof -
  consider "typeIs a raise_type" | "typeIs a send_type" | "typeIs a log_type"
    | "\<not> typeIs a raise_type" "\<not> typeIs a send_type" "\<not> typeIs a log_type"
    by blast
  then show ?thesis
  proof cases
    case 1
    with assms(4) show ?thesis by (auto simp: resolveAction_raise)
  next
    case 2
    with assms(4) show ?thesis by (auto simp: resolveAction_send)
  next
    case 3
    with assms(4) show ?thesis
      by (auto simp: resolveAction_log split: sum.splits dest: resolveLog_result)
  next
    case 4
    with assms show ?thesis
      by (auto simp: resolveAction_default split: sum.splits dest: toActionObject_isObject)
  qed
qed

lemma resolveAction_array:
  assumes "typeIs a choose_type \<or> typeIs a pure_type"
    and "resolveAction resolve env machine st ev c a = Inr (r, c', w)"
  shows "\<exists>xs. r = Arr xs"
  using resolveAction_branching [OF assms] by (auto dest: resolveMatched_cases)

section \<open>No assign action in the output\<close>

lemma get_literal_last: "get (literal base (es @ [(k, v)])) k = v"
  by (simp add: literal_def get_update del: literal_Cons literal_Nil)

lemma typeIs_literal_other:
  "''type'' \<notin> fst ` set es \<Longrightarrow> typeIs (literal base es) t \<longleftrightarrow> typeIs (Obj base) t"
  by (simp add: typeIs_iff get_literal_other)

lemma lookup_not_Str: "\<not> isString k \<Longrightarrow> lookup reg k = Undefined"
  by (cases k) (simp_all add: lookup_def split: option.splits)

lemma toActionObject_not_assign:
  assumes "isObject a" and "\<not> typeIs a assign_type"
    and "\<forall>k. \<not> typeIs (lookup reg (Str k)) assign_type"
    and "toActionObject a reg = Inr r"
  shows "\<not> typeIs r assign_type"
proof -
  from assms(1) obtain kvs where a: "a = Obj kvs"
    by (auto simp: isObject_iff)
  let ?reg = "lookup reg (get a ''type'')"
  have reg: "\<not> typeIs ?reg assign_type"
  proof (cases "get a ''type''")
    case (Str k)
    with assms(3) show ?thesis by simp
  qed (simp_all add: lookup_not_Str typeIs_iff)
  consider "isFunction ?reg" | "\<not> isFunction ?reg" "truthy ?reg"
    | "\<not> isFunction ?reg" "\<not> truthy ?reg"
    by blast
  then show ?thesis
  proof cases
    case 1
    with assms(4) a have "defineToString (literal kvs [(''exec'', ?reg)]) = Inr r"
      by (auto simp: toActionObject_def Let_def simp del: literal_Cons literal_Nil)
    from defineToString_Inr [OF this] assms(2) a show ?thesis
      by (simp add: typeIs_iff get_update)
  next
    case 2
    with assms(4) a
    have "defineToString (literal (props ?reg) (kvs @ [(''type'', get ?reg ''type'')])) = Inr r"
      by (auto simp: toActionObject_def Let_def simp del: literal_Cons literal_Nil)
    from defineToString_Inr [OF this] reg show ?thesis
      by (simp add: typeIs_iff get_literal_last del: literal_Cons literal_Nil)
  next
    case 3
    with assms(4) a have "defineToString a = Inr r"
      by (auto simp: toActionObject_def Let_def)
    from defineToString_Inr [OF this] assms(2) show ?thesis by simp
  qed
qed

lemma resolveRaise_not_assign: "\<not> typeIs (resolveRaise a) assign_type"
  by (simp add: resolveRaise_def typeIs_iff types_distinct)

lemma callback_no_assign:
  assumes IH: "\<And>c acts res c' w. \<forall>a\<in>set acts. isObject a \<Longrightarrow> resolve c acts = Inr (res, c', w)
                 \<Longrightarrow> \<forall>r\<in>set res. \<not> typeIs r assign_type"
    and reg: "\<forall>k. \<not> typeIs (lookup (options_actions machine) (Str k)) assign_type"
    and a: "isObject a" "\<not> typeIs a assign_type"
    and r: "resolveAction resolve env machine st ev c a = Inr (r, c', w)"
  shows "\<forall>x\<in>set (flatten [r]). \<not> typeIs x assign_type"
proof -
  consider "typeIs a raise_type" | "typeIs a send_type" | "typeIs a log_type"
    | "typeIs a choose_type \<or> typeIs a pure_type"
    | "\<not> typeIs a raise_type" "\<not> typeIs a send_type" "\<not> typeIs a log_type"
      "\<not> typeIs a choose_type" "\<not> typeIs a pure_type"
    by blast
  then show ?thesis
  proof cases
    case 1
    with r show ?thesis
      by (auto simp: resolveAction_raise flatten_object resolveRaise_not_assign)
  next
    case 2
    with r have "r = resolveSend a c ev (options_delays machine)"
      by (auto simp: resolveAction_send)
    with 2 a(2) show ?thesis
      by (simp add: flatten_object typeIs_iff get_resolveSend_type)
  next
    case 3
    with r have "resolveLog a c ev = Inr r"
      by (auto simp: resolveAction_log split: sum.splits)
    from resolveLog_result [OF this] a(2) show ?thesis
      by (simp add: flatten_object typeIs_iff)
  next
    case 4
    from resolveAction_branching [OF 4 r] obtain v
      where "resolveMatched resolve machine c v = Inr (r, c', w)" ..
    from resolveMatched_cases [OF this] show ?thesis
    proof
      assume "r = Arr [] \<and> c' = c \<and> w = []"
      then show ?thesis by simp
    next
      assume "\<exists>acts res. toActionObjects (Arr (toArray v)) (options_actions machine) = Inr acts
                \<and> resolve c acts = Inr (res, c', w) \<and> r = Arr res"
      then obtain acts res
        where acts: "toActionObjects (Arr (toArray v)) (options_actions machine) = Inr acts"
          and res: "resolve c acts = Inr (res, c', w)" and rr: "r = Arr res"
        by blast
      from IH [OF toActionObjects_isObject [OF acts] res] rr show ?thesis
        by simp
    qed
  next
    case 5
    with r have "toActionObject a (options_actions machine) = Inr r"
      by (auto simp: resolveAction_default split: sum.splits)
    from toActionObject_not_assign [OF a reg this] toActionObject_isObject [OF this]
    show ?thesis
      by (simp add: flatten_object)
  qed
qed

lemma map_actions_no_assign:
  assumes IH: "\<And>c acts res c' w. \<forall>a\<in>set acts. isObject a \<Longrightarrow> resolve c acts = Inr (res, c', w)
                 \<Longrightarrow> \<forall>r\<in>set res. \<not> typeIs r assign_type"
    and reg: "\<forall>k. \<not> typeIs (lookup (options_actions machine) (Str k)) assign_type"
  shows "\<forall>a\<in>set xs. isObject a \<and> \<not> typeIs a assign_type
     \<Longrightarrow> map_actions (resolveAction resolve env machine st ev) c xs = Inr (rs, c', w)
     \<Longrightarrow> \<forall>x\<in>set (flatten rs). \<not> typeIs x assign_type"
proof (induction xs arbitrary: c rs c' w)
  case Nil
  then show ?case by simp
next
  case (Cons a xs)
  from Cons.prems(2) obtain r c1 w1 rs' w2
    where r: "resolveAction resolve env machine st ev c a = Inr (r, c1, w1)"
      and rs': "map_actions (resolveAction resolve env machine st ev) c1 xs = Inr (rs', c', w2)"
      and rs: "rs = r # rs'"
    by (auto split: sum.splits)
  from Cons.prems(1) have a: "isObject a" "\<not> typeIs a assign_type"
    by simp_all
  have "\<forall>x\<in>set (flatten [r]). \<not> typeIs x assign_type"
    using IH reg a r by (rule callback_no_assign)
  moreover have "\<forall>x\<in>set (flatten rs'). \<not> typeIs x assign_type"
    using Cons.IH [OF _ rs'] Cons.prems(1) by simp
  moreover have "flatten rs = flatten [r] @ flatten rs'"
    using rs by (simp add: flatten_Cons)
  ultimately show ?case
    by auto
qed

text \<open>
  C10, amended. When no name of the action registry stands for an object of the assign
  type, and the list holds action objects, no action of the assign type is in the
  resolved actions that \<open>resolveActions\<close> returns, to whatever depth the actions are
  nested. (The actions of the branches are functions, strings or objects, as their type
  says: for an array among them the call returns \<open>TypeError\<close> here.)
\<close>

theorem no_assign_in_output:
  assumes "\<forall>k. \<not> typeIs (lookup (options_actions machine) (Str k)) assign_type"
    and "\<forall>a\<in>set actions. isObject a"
    and "resolveActions n env machine st ctx ev actions = Inr (res, ctx', ws)"
  shows "\<forall>r\<in>set res. \<not> typeIs r assign_type"
  using assms(2,3)
proof (induction n arbitrary: ctx actions res ctx' ws)
  case 0
  then show ?case by simp
next
  case (Suc n)
  let ?others = "filter (\<lambda>x. \<not> typeIs x assign_type) actions"
  from Suc.prems(2) obtain rs
    where rs: "map_actions
        (resolveAction (\<lambda>c nested. resolveActions n env machine st c ev nested) env machine st ev)
        (if filter (\<lambda>a. typeIs a assign_type) actions \<noteq> []
         then updateContext env ctx ev (filter (\<lambda>a. typeIs a assign_type) actions) st else ctx)
        ?others = Inr (rs, ctx', ws)"
      and res: "res = flatten rs"
    by (auto simp: resolveActions.simps(2) partition_js_def Let_def split: if_splits sum.splits)
  have "\<forall>a\<in>set ?others. isObject a \<and> \<not> typeIs a assign_type"
    using Suc.prems(1) by simp
  from map_actions_no_assign [OF Suc.IH assms(1) this rs] res show ?case
    by simp
qed

theorem no_assign_in_output_witness:
  "(\<forall>k. \<not> typeIs (lookup (options_actions ex_machine) (Str k)) assign_type)
 \<and> list_all isObject
      [send (Str ''PING'') (Obj [(''delay'', Str ''LONG'')]), assign increment,
       choose_action (Arr [Obj [(''actions'', Arr [assign times_ten, log_count])]])]
 \<and> resolveActions (Suc (Suc 0)) ex_env ex_machine () 1 ex_event
      [send (Str ''PING'') (Obj [(''delay'', Str ''LONG'')]), assign increment,
       choose_action (Arr [Obj [(''actions'', Arr [assign times_ten, log_count])]])]
    = Inr ([resolveSend (send (Str ''PING'') (Obj [(''delay'', Str ''LONG'')])) 2 ex_event
              (options_delays ex_machine),
            Obj [(''type'', Str log_type),
                 (''expr'', Fun ''expr'' ''ctx => ctx.count'' (\<lambda>ctx _ _. Num ctx)),
                 (''value'', Num 20)]], 20, [])
 \<and> list_all (\<lambda>r. \<not> typeIs r assign_type)
      [resolveSend (send (Str ''PING'') (Obj [(''delay'', Str ''LONG'')])) 2 ex_event
         (options_delays ex_machine),
       Obj [(''type'', Str log_type),
            (''expr'', Fun ''expr'' ''ctx => ctx.count'' (\<lambda>ctx _ _. Num ctx)),
            (''value'', Num 20)]]"
proof -
  let ?actions = "[send (Str ''PING'') (Obj [(''delay'', Str ''LONG'')]), assign increment,
       choose_action (Arr [Obj [(''actions'', Arr [assign times_ten, log_count])]])]"
  let ?res = "[resolveSend (send (Str ''PING'') (Obj [(''delay'', Str ''LONG'')])) 2 ex_event
         (options_delays ex_machine),
       Obj [(''type'', Str log_type),
            (''expr'', Fun ''expr'' ''ctx => ctx.count'' (\<lambda>ctx _ _. Num ctx)),
            (''value'', Num 20)]]"
  have h1: "\<forall>k. \<not> typeIs (lookup (options_actions ex_machine) (Str k)) assign_type"
    by (simp add: ex_machine_def lookup_def typeIs_iff)
  have h2: "\<forall>a\<in>set ?actions. isObject a"
    by (simp add: send_def assign_def choose_action_def)
  have run: "resolveActions (Suc (Suc 0)) ex_env ex_machine () 1 ex_event ?actions
      = Inr (?res, 20, [])"
    by (simp add: eval_defs example_defs)
  from no_assign_in_output [OF h1 h2 run] h1 h2 run show ?thesis
    by (simp add: list_all_iff)
qed

text \<open>
  C10 as it is written fails where the action registry gives an assign action under a
  name: the entry \<open>{type: 'bump'}\<close> is not an assign action when the list is partitioned,
  the default case canonicalises it to the registered assign action, and that action is
  in the output while the context is what it was.
\<close>

theorem registered_assign_in_output:
  "resolveActions (Suc 0) ex_env
      (ex_machine\<lparr>options_actions := Some [''bump'' \<mapsto> assign increment]\<rparr>) () 1 ex_event
      [Obj [(''type'', Str ''bump'')]]
    = Inr ([assign increment], 1, [])
 \<and> typeIs (assign increment) assign_type"
  by (simp add: eval_defs example_defs)

section \<open>The partition and the threaded context\<close>

lemma typeIs_Undefined [simp]: "\<not> typeIs Undefined t"
  by (simp add: typeIs_iff)

lemma list_ex_isUndefined_others:
  "list_ex isUndefined (filter (\<lambda>x. \<not> typeIs x assign_type) actions) = list_ex isUndefined actions"
  by (induction actions) (auto simp: isUndefined_iff)

lemma resolveActions_partition:
  "resolveActions (Suc n) env machine st ctx ev actions =
     (if list_ex isUndefined (filter (\<lambda>x. \<not> typeIs x assign_type) actions) then Inl TypeError
      else
        (case map_actions
                (resolveAction (\<lambda>c nested. resolveActions n env machine st c ev nested)
                   env machine st ev)
                (assigned_context env ctx ev st actions)
                (filter (\<lambda>x. \<not> typeIs x assign_type) actions) of
           Inl e \<Rightarrow> Inl e
         | Inr (results, c, w) \<Rightarrow> Inr (flatten results, c, w)))"
  by (simp add: resolveActions.simps(2) partition_js_def assigned_context_def
      list_ex_isUndefined_others)

lemma map_actions_context:
  assumes "\<forall>b\<in>set xs. \<not> typeIs b choose_type \<and> \<not> typeIs b pure_type"
    and "map_actions (resolveAction resolve env machine st ev) c xs = Inr (rs, c', w)"
  shows "c' = c"
  using assms
proof (induction xs arbitrary: c rs w)
  case Nil
  then show ?case by simp
next
  case (Cons a xs)
  from Cons.prems(2) obtain r c1 w1 rs' w2
    where r: "resolveAction resolve env machine st ev c a = Inr (r, c1, w1)"
      and rs': "map_actions (resolveAction resolve env machine st ev) c1 xs = Inr (rs', c', w2)"
    by (auto split: sum.splits)
  from Cons.prems(1) r have "c1 = c"
    by (auto dest: resolveAction_context)
  moreover from Cons.IH [OF _ rs'] Cons.prems(1) have "c' = c1"
    by simp
  ultimately show ?case by simp
qed

section \<open>The callback and the branch of a choose or pure action\<close>

lemma condition_matches_branch:
  "condition_matches env machine st c ev x = Inr b \<Longrightarrow> b = branch_matches env machine st c ev x"
  by (auto simp: condition_matches_def branch_matches_def Let_def split: if_splits)

lemma find_js_find:
  "find_js (condition_matches env machine st c ev) conds = Inr found
     \<Longrightarrow> find (branch_matches env machine st c ev) conds = found"
proof (induction conds)
  case Nil
  then show ?case by simp
next
  case (Cons x xs)
  from Cons.prems obtain b where b: "condition_matches env machine st c ev x = Inr b"
    by (auto split: sum.splits)
  from condition_matches_branch [OF b] have m: "branch_matches env machine st c ev x = b"
    by simp
  show ?case
  proof (cases b)
    case True
    with Cons.prems b m show ?thesis by simp
  next
    case False
    with Cons.prems b have "find_js (condition_matches env machine st c ev) xs = Inr found"
      by simp
    from Cons.IH [OF this] False m show ?thesis by simp
  qed
qed

lemma callback_selected:
  assumes "typeIs a choose_type \<or> typeIs a pure_type"
    and "resolveAction resolve env machine st ev c a = Inr (r, c1, w)"
  shows "resolveMatched resolve machine c (selected_actions env machine st ev c a) = Inr (r, c1, w)"
proof (cases "typeIs a choose_type")
  case True
  with assms(2) obtain conds found
    where conds: "get a ''conds'' = Arr conds"
      and found: "find_js (condition_matches env machine st c ev) conds = Inr found"
      and r: "resolveMatched resolve machine c
                (case found of None \<Rightarrow> Undefined | Some condition \<Rightarrow> get condition ''actions'')
              = Inr (r, c1, w)"
    by (auto simp: resolveAction_choose split: val.splits sum.splits)
  from find_js_find [OF found] True conds
  have "selected_actions env machine st ev c a
      = (case found of None \<Rightarrow> Undefined | Some condition \<Rightarrow> get condition ''actions'')"
    by (simp add: selected_actions_def)
  with r show ?thesis by simp
next
  case False
  with assms(1) have p: "typeIs a pure_type" by simp
  with assms(2) obtain v
    where v: "call (get a ''get'') c (data ev) None = Inr v"
      and r: "resolveMatched resolve machine c v = Inr (r, c1, w)"
    by (auto simp: resolveAction_pure split: sum.splits)
  from v have "v = apply_fun (get a ''get'') c (data ev) None"
    by (auto simp: call_def split: if_splits)
  with False have "selected_actions env machine st ev c a = v"
    by (simp add: selected_actions_def)
  with r show ?thesis by simp
qed

lemma callback_branch:
  assumes rel: "\<And>nested xs c' w. resolve c nested = Inr (xs, c', w)
                  \<Longrightarrow> sresolve c nested = Some (xs, c')"
    and a: "typeIs a choose_type \<or> typeIs a pure_type"
    and r: "resolveAction resolve env machine st ev c a = Inr (r, c1, w)"
  shows "\<exists>xs. r = Arr xs \<and> branch_output sresolve env machine st ev c a = Some (xs, c1)"
proof -
  let ?v = "selected_actions env machine st ev c a"
  from callback_selected [OF a r]
  have m: "resolveMatched resolve machine c ?v = Inr (r, c1, w)" .
  show ?thesis
  proof (cases "truthy ?v")
    case False
    with m show ?thesis
      by (simp add: resolveMatched_def branch_output_def)
  next
    case True
    with m obtain nested xs
      where n: "toActionObjects ?v (options_actions machine) = Inr nested"
        and x: "resolve c nested = Inr (xs, c1, w)" and rx: "r = Arr xs"
      by (auto simp: resolveMatched_def toActionObjects_toArray split: sum.splits)
    from rel [OF x] True n rx show ?thesis
      by (simp add: branch_output_def)
  qed
qed

lemma callback_branch_returned:
  assumes "typeIs a choose_type \<or> typeIs a pure_type"
    and "resolveAction resolve env machine st ev c a = Inr (r, c1, w)"
  shows "\<exists>xs. r = Arr xs
           \<and> branch_output (\<lambda>c nested. returned (resolve c nested)) env machine st ev c a
               = Some (xs, c1)"
proof (rule callback_branch [where resolve = resolve and w = w])
  show "returned (resolve c nested) = Some (xs, c')" if "resolve c nested = Inr (xs, c', w)"
    for nested xs c' w
    using that by (simp add: returned_def)
qed (fact assms)+

lemma callback_counterpart:
  assumes "\<not> typeIs a choose_type" and "\<not> typeIs a pure_type"
    and "resolveAction resolve env machine st ev c a = Inr (r, c1, w)"
  shows "resolved_counterpart machine ev c a = Some r \<and> c1 = c \<and> isObject r"
proof -
  consider "typeIs a raise_type" | "typeIs a send_type" | "typeIs a log_type"
    | "\<not> typeIs a raise_type" "\<not> typeIs a send_type" "\<not> typeIs a log_type"
    by blast
  then show ?thesis
  proof cases
    case 1
    with assms(3) show ?thesis
      by (auto simp: resolveAction_raise resolved_counterpart_def)
  next
    case 2
    with assms(3) show ?thesis
      by (auto simp: resolveAction_send resolved_counterpart_def
          typeIs_other [of a send_type] types_distinct)
  next
    case 3
    with assms(3) show ?thesis
      by (auto simp: resolveAction_log resolved_counterpart_def
          typeIs_other [of a log_type] types_distinct split: sum.splits
          dest: resolveLog_result)
  next
    case 4
    with assms show ?thesis
      by (auto simp: resolveAction_default resolved_counterpart_def split: sum.splits
          dest: toActionObject_isObject)
  qed
qed

lemma branch_contexts_plain:
  "\<forall>b\<in>set xs. \<not> typeIs b choose_type \<and> \<not> typeIs b pure_type
     \<Longrightarrow> branch_contexts n env machine st ev c xs = []"
  by (induction xs) simp_all

lemma branch_contexts_length:
  "length (branch_contexts n env machine st ev c xs)
     \<le> length (filter (\<lambda>b. typeIs b choose_type \<or> typeIs b pure_type) xs)"
  by (induction xs arbitrary: c) (auto split: option.splits intro: le_SucI)

lemma map_actions_branch_contexts:
  assumes "map_actions
      (resolveAction (\<lambda>c nested. resolveActions n env machine st c ev nested) env machine st ev)
      c (filter (\<lambda>x. \<not> typeIs x assign_type) xs) = Inr (rs, c', w)"
  shows "c' = last (c # branch_contexts n env machine st ev c xs)"
  using assms
proof (induction xs arbitrary: c rs w)
  case Nil
  then show ?case by simp
next
  case (Cons a xs)
  let ?f = "resolveAction (\<lambda>c nested. resolveActions n env machine st c ev nested)
      env machine st ev"
  let ?sresolve = "\<lambda>c nested. returned (resolveActions n env machine st c ev nested)"
  show ?case
  proof (cases "typeIs a assign_type")
    case True
    then have plain: "\<not> typeIs a choose_type" "\<not> typeIs a pure_type"
      by (simp_all add: typeIs_other [of a assign_type] types_distinct)
    from True Cons.prems
    have "map_actions ?f c (filter (\<lambda>x. \<not> typeIs x assign_type) xs) = Inr (rs, c', w)"
      by simp
    from Cons.IH [OF this] plain show ?thesis by simp
  next
    case False
    with Cons.prems obtain r c1 w1 rs' w2
      where r: "?f c a = Inr (r, c1, w1)"
        and rest: "map_actions ?f c1 (filter (\<lambda>x. \<not> typeIs x assign_type) xs) = Inr (rs', c', w2)"
      by (auto split: sum.splits)
    note IH = Cons.IH [OF rest]
    show ?thesis
    proof (cases "typeIs a choose_type \<or> typeIs a pure_type")
      case plain: False
      with r have "c1 = c"
        by (auto dest: resolveAction_context)
      with IH plain show ?thesis by simp
    next
      case branching: True
      from callback_branch_returned [OF branching r]
      obtain ys where b: "branch_output ?sresolve env machine st ev c a = Some (ys, c1)"
        by blast
      show ?thesis
      proof (cases "truthy (selected_actions env machine st ev c a)")
        case True
        with branching b IH show ?thesis by simp
      next
        case False
        with b have "c1 = c"
          by (simp add: branch_output_def)
        with False IH show ?thesis by simp
      qed
    qed
  qed
qed

section \<open>The context that the actions are resolved against\<close>

text \<open>
  C1, amended. The result of \<open>resolveActions\<close> depends on the list only through its
  assign actions and its other actions, each in their order, not on how the two are
  interleaved. Where the call returns, every other action \<open>a\<close> of the list is resolved
  against the context \<open>c0\<close> that the assign actions of the list give, replaced by the
  contexts of the branches of the choose and pure actions that stand before \<open>a\<close>: if
  \<open>a\<close> is a send action it puts \<open>resolveSend a c0\<close> in the output, if a log action
  what \<open>resolveLog a c0\<close> returns, and if a choose or a pure action the resolved output
  of the branch that is selected by the guards, or generated, in \<open>c0\<close>, resolved from
  \<open>c0\<close>. When no choose or pure action stands before \<open>a\<close>, the context \<open>c0\<close> is the
  one that the assign actions give; with no assign action in the list, that is the input
  context.
\<close>

theorem assign_before_siblings:
  assumes "resolveActions (Suc n) env machine st ctx ev actions = Inr (res, ctx', ws)"
    and "filter (\<lambda>x. \<not> typeIs x assign_type) actions = pre @ a # post"
  shows "(filter (\<lambda>x. typeIs x assign_type) actions' = filter (\<lambda>x. typeIs x assign_type) actions
          \<and> filter (\<lambda>x. \<not> typeIs x assign_type) actions'
              = filter (\<lambda>x. \<not> typeIs x assign_type) actions \<longrightarrow>
          resolveActions (Suc n) env machine st ctx ev actions'
            = resolveActions (Suc n) env machine st ctx ev actions)
       \<and> (\<exists>c0 front out rest c1.
            c0 = last (assigned_context env ctx ev st actions
                       # branch_contexts n env machine st ev
                           (assigned_context env ctx ev st actions) pre)
          \<and> res = front @ out @ rest
          \<and> (typeIs a send_type \<longrightarrow> out = [resolveSend a c0 ev (options_delays machine)])
          \<and> (typeIs a log_type \<longrightarrow> (\<exists>r. resolveLog a c0 ev = Inr r \<and> out = [r]))
          \<and> (typeIs a choose_type \<or> typeIs a pure_type \<longrightarrow>
               branch_output (\<lambda>c nested. returned (resolveActions n env machine st c ev nested))
                 env machine st ev c0 a = Some (out, c1))
          \<and> ((\<forall>b\<in>set pre. \<not> typeIs b choose_type \<and> \<not> typeIs b pure_type) \<longrightarrow>
               c0 = assigned_context env ctx ev st actions))
       \<and> ((\<forall>b\<in>set actions. \<not> typeIs b assign_type) \<longrightarrow>
            assigned_context env ctx ev st actions = ctx)"
proof (intro conjI impI)
  show "resolveActions (Suc n) env machine st ctx ev actions'
            = resolveActions (Suc n) env machine st ctx ev actions"
    if "filter (\<lambda>x. typeIs x assign_type) actions' = filter (\<lambda>x. typeIs x assign_type) actions
          \<and> filter (\<lambda>x. \<not> typeIs x assign_type) actions'
              = filter (\<lambda>x. \<not> typeIs x assign_type) actions"
    using that by (simp add: resolveActions_partition assigned_context_def)
  show "assigned_context env ctx ev st actions = ctx"
    if "\<forall>b\<in>set actions. \<not> typeIs b assign_type"
    using that by (simp add: assigned_context_def)
  let ?f = "resolveAction (\<lambda>c nested. resolveActions n env machine st c ev nested)
      env machine st ev"
  let ?sresolve = "\<lambda>c nested. returned (resolveActions n env machine st c ev nested)"
  let ?C = "assigned_context env ctx ev st actions"
  let ?c0 = "last (?C # branch_contexts n env machine st ev ?C pre)"
  from assms obtain results
    where m: "map_actions ?f ?C (pre @ a # post) = Inr (results, ctx', ws)"
      and res: "res = flatten results"
    by (auto simp: resolveActions_partition split: if_splits sum.splits)
  from m obtain rs c0 w0 r c1 w rs' w'
    where pre: "map_actions ?f ?C pre = Inr (rs, c0, w0)"
      and a: "?f c0 a = Inr (r, c1, w)"
      and results: "results = rs @ r # rs'"
    by (auto simp: map_actions_append split: sum.splits)
  have "\<forall>x\<in>set (pre @ a # post). \<not> typeIs x assign_type"
    unfolding assms(2) [symmetric] by simp
  then have "filter (\<lambda>x. \<not> typeIs x assign_type) pre = pre"
    by (simp add: filter_id_conv)
  with pre have "map_actions ?f ?C (filter (\<lambda>x. \<not> typeIs x assign_type) pre) = Inr (rs, c0, w0)"
    by simp
  from map_actions_branch_contexts [OF this] have c0: "c0 = ?c0" .
  have shape: "res = flatten rs @ flatten [r] @ flatten rs'"
    using res results by (simp add: flatten_Cons)
  have send: "flatten [r] = [resolveSend a ?c0 ev (options_delays machine)]"
    if "typeIs a send_type"
    using that a c0 by (auto simp: resolveAction_send flatten_object)
  have log: "\<exists>x. resolveLog a ?c0 ev = Inr x \<and> flatten [r] = [x]" if "typeIs a log_type"
  proof -
    from that a obtain x where x: "resolveLog a c0 ev = Inr x" and rx: "r = x"
      by (auto simp: resolveAction_log split: sum.splits)
    from resolveLog_result [OF x] rx have "flatten [r] = [x]"
      by (simp add: flatten_object)
    with x c0 show ?thesis by auto
  qed
  have branch: "branch_output ?sresolve env machine st ev ?c0 a = Some (flatten [r], c1)"
    if b: "typeIs a choose_type \<or> typeIs a pure_type"
    using callback_branch_returned [OF b a] c0 by auto
  have plain: "?c0 = ?C" if "\<forall>b\<in>set pre. \<not> typeIs b choose_type \<and> \<not> typeIs b pure_type"
    using that by (simp add: branch_contexts_plain)
  from shape send log branch plain
  show "\<exists>c0 front out rest c1.
            c0 = ?c0
          \<and> res = front @ out @ rest
          \<and> (typeIs a send_type \<longrightarrow> out = [resolveSend a c0 ev (options_delays machine)])
          \<and> (typeIs a log_type \<longrightarrow> (\<exists>r. resolveLog a c0 ev = Inr r \<and> out = [r]))
          \<and> (typeIs a choose_type \<or> typeIs a pure_type \<longrightarrow>
               branch_output ?sresolve env machine st ev c0 a = Some (out, c1))
          \<and> ((\<forall>b\<in>set pre. \<not> typeIs b choose_type \<and> \<not> typeIs b pure_type) \<longrightarrow> c0 = ?C)"
    by blast
qed

lemmas ex_more_defs = send_ping_def choose_even_def pure_more_def logged_def

lemma ex_run:
  "resolveActions (Suc (Suc 0)) ex_env ex_machine () 1 ex_event
      [send_ping, choose_even, pure_more, log_count, assign increment]
    = Inr ([resolveSend send_ping 2 ex_event (options_delays ex_machine), logged 21, logged 21],
           21, [])"
  by (simp add: eval_defs example_defs ex_more_defs)

lemma ex_assigned:
  "assigned_context ex_env 1 ex_event ()
      [send_ping, choose_even, pure_more, log_count, assign increment] = 2"
  by (simp add: eval_defs example_defs ex_more_defs)

lemma ex_branch_contexts:
  "branch_contexts (Suc 0) ex_env ex_machine () ex_event 2
      [send_ping, choose_even, pure_more, log_count, assign increment] = [20, 21]"
  by (simp add: eval_defs example_defs ex_more_defs)

theorem assign_before_siblings_witness:
  "resolveActions (Suc (Suc 0)) ex_env ex_machine () 1 ex_event
      [send_ping, choose_even, pure_more, log_count, assign increment]
    = Inr ([resolveSend send_ping 2 ex_event (options_delays ex_machine), logged 21, logged 21],
           21, [])
 \<and> filter (\<lambda>x. \<not> typeIs x assign_type)
      [send_ping, choose_even, pure_more, log_count, assign increment]
    = [send_ping, choose_even, pure_more, log_count]
 \<and> assigned_context ex_env 1 ex_event ()
      [send_ping, choose_even, pure_more, log_count, assign increment] = 2
 \<and> resolveActions (Suc (Suc 0)) ex_env ex_machine () 1 ex_event
      [assign increment, send_ping, choose_even, pure_more, log_count]
    = resolveActions (Suc (Suc 0)) ex_env ex_machine () 1 ex_event
      [send_ping, choose_even, pure_more, log_count, assign increment]
 \<and> typeIs send_ping send_type
 \<and> branch_contexts (Suc 0) ex_env ex_machine () ex_event 2 [] = []
 \<and> (\<exists>front out rest.
      [resolveSend send_ping 2 ex_event (options_delays ex_machine), logged 21, logged 21]
        = front @ out @ rest
      \<and> out = [resolveSend send_ping 2 ex_event (options_delays ex_machine)])
 \<and> get (resolveSend send_ping 2 ex_event (options_delays ex_machine)) ''delay'' = Num 20
 \<and> typeIs choose_even choose_type
 \<and> branch_contexts (Suc 0) ex_env ex_machine () ex_event 2 [send_ping] = []
 \<and> (\<exists>front out rest c1.
      [resolveSend send_ping 2 ex_event (options_delays ex_machine), logged 21, logged 21]
        = front @ out @ rest
      \<and> branch_output
           (\<lambda>c nested. returned (resolveActions (Suc 0) ex_env ex_machine () c ex_event nested))
           ex_env ex_machine () ex_event 2 choose_even = Some (out, c1))
 \<and> branch_output
      (\<lambda>c nested. returned (resolveActions (Suc 0) ex_env ex_machine () c ex_event nested))
      ex_env ex_machine () ex_event 2 choose_even = Some ([], 20)
 \<and> typeIs pure_more pure_type
 \<and> branch_contexts (Suc 0) ex_env ex_machine () ex_event 2 [send_ping, choose_even] = [20]
 \<and> (\<exists>front out rest c1.
      [resolveSend send_ping 2 ex_event (options_delays ex_machine), logged 21, logged 21]
        = front @ out @ rest
      \<and> branch_output
           (\<lambda>c nested. returned (resolveActions (Suc 0) ex_env ex_machine () c ex_event nested))
           ex_env ex_machine () ex_event 20 pure_more = Some (out, c1))
 \<and> branch_output
      (\<lambda>c nested. returned (resolveActions (Suc 0) ex_env ex_machine () c ex_event nested))
      ex_env ex_machine () ex_event 20 pure_more = Some ([logged 21], 21)
 \<and> typeIs log_count log_type
 \<and> branch_contexts (Suc 0) ex_env ex_machine () ex_event 2 [send_ping, choose_even, pure_more]
    = [20, 21]
 \<and> (\<exists>front out rest.
      [resolveSend send_ping 2 ex_event (options_delays ex_machine), logged 21, logged 21]
        = front @ out @ rest
      \<and> (\<exists>r. resolveLog log_count 21 ex_event = Inr r \<and> out = [r]))
 \<and> resolveLog log_count 21 ex_event = Inr (logged 21)
 \<and> resolveActions (Suc 0) ex_env ex_machine () 3 ex_event [log_count] = Inr ([logged 3], 3, [])
 \<and> list_all (\<lambda>b. \<not> typeIs b assign_type) [log_count]
 \<and> assigned_context ex_env 3 ex_event () [log_count] = 3"
proof -
  let ?actions = "[send_ping, choose_even, pure_more, log_count, assign increment]"
  let ?actions' = "[assign increment, send_ping, choose_even, pure_more, log_count]"
  let ?res = "[resolveSend send_ping 2 ex_event (options_delays ex_machine), logged 21, logged 21]"
  let ?sresolve = "\<lambda>c nested. returned (resolveActions (Suc 0) ex_env ex_machine () c ex_event nested)"
  have others: "filter (\<lambda>x. \<not> typeIs x assign_type) ?actions
      = [send_ping, choose_even, pure_more, log_count]"
    by (simp add: eval_defs example_defs ex_more_defs)
  have same: "filter (\<lambda>x. typeIs x assign_type) ?actions' = filter (\<lambda>x. typeIs x assign_type) ?actions
          \<and> filter (\<lambda>x. \<not> typeIs x assign_type) ?actions'
              = filter (\<lambda>x. \<not> typeIs x assign_type) ?actions"
    by (simp add: eval_defs example_defs ex_more_defs)
  have types: "typeIs send_ping send_type" "typeIs choose_even choose_type"
    "typeIs pure_more pure_type" "typeIs log_count log_type"
    by (simp_all add: eval_defs example_defs ex_more_defs)
  have B0: "branch_contexts (Suc 0) ex_env ex_machine () ex_event 2 [] = []"
    by simp
  have B1: "branch_contexts (Suc 0) ex_env ex_machine () ex_event 2 [send_ping] = []"
    by (simp add: eval_defs example_defs ex_more_defs)
  have B2: "branch_contexts (Suc 0) ex_env ex_machine () ex_event 2 [send_ping, choose_even] = [20]"
    by (simp add: eval_defs example_defs ex_more_defs)
  have B3: "branch_contexts (Suc 0) ex_env ex_machine () ex_event 2
      [send_ping, choose_even, pure_more] = [20, 21]"
    by (simp add: eval_defs example_defs ex_more_defs)
  have delay: "get (resolveSend send_ping 2 ex_event (options_delays ex_machine)) ''delay'' = Num 20"
    by (simp add: eval_defs example_defs ex_more_defs)
  have outc: "branch_output ?sresolve ex_env ex_machine () ex_event 2 choose_even = Some ([], 20)"
    by (simp add: eval_defs example_defs ex_more_defs)
  have outp: "branch_output ?sresolve ex_env ex_machine () ex_event 20 pure_more
      = Some ([logged 21], 21)"
    by (simp add: eval_defs example_defs ex_more_defs)
  have outl: "resolveLog log_count 21 ex_event = Inr (logged 21)"
    by (simp add: eval_defs example_defs ex_more_defs)
  have split1: "filter (\<lambda>x. \<not> typeIs x assign_type) ?actions
      = [] @ send_ping # [choose_even, pure_more, log_count]"
    and split2: "filter (\<lambda>x. \<not> typeIs x assign_type) ?actions
      = [send_ping] @ choose_even # [pure_more, log_count]"
    and split3: "filter (\<lambda>x. \<not> typeIs x assign_type) ?actions
      = [send_ping, choose_even] @ pure_more # [log_count]"
    and split4: "filter (\<lambda>x. \<not> typeIs x assign_type) ?actions
      = [send_ping, choose_even, pure_more] @ log_count # []"
    using others by simp_all
  note T1 = assign_before_siblings [OF ex_run split1, where actions' = ?actions']
  note T2 = assign_before_siblings [OF ex_run split2, where actions' = ?actions']
  note T3 = assign_before_siblings [OF ex_run split3, where actions' = ?actions']
  note T4 = assign_before_siblings [OF ex_run split4, where actions' = ?actions']
  from T1 same have 1: "resolveActions (Suc (Suc 0)) ex_env ex_machine () 1 ex_event ?actions'
      = resolveActions (Suc (Suc 0)) ex_env ex_machine () 1 ex_event ?actions"
    by blast
  let ?C = "assigned_context ex_env 1 ex_event () ?actions"
  from T1 [THEN conjunct2, THEN conjunct1] obtain c0 front out rest c1
    where c: "c0 = last (?C # branch_contexts (Suc 0) ex_env ex_machine () ex_event ?C [])"
      and r: "?res = front @ out @ rest"
      and s: "typeIs send_ping send_type
                \<longrightarrow> out = [resolveSend send_ping c0 ex_event (options_delays ex_machine)]"
    by (elim exE conjE) (rule that; assumption)
  from c have "c0 = 2"
    unfolding ex_assigned B0 by simp
  with s types(1) have "out = [resolveSend send_ping 2 ex_event (options_delays ex_machine)]"
    by simp
  with r have 2: "\<exists>front out rest. ?res = front @ out @ rest
      \<and> out = [resolveSend send_ping 2 ex_event (options_delays ex_machine)]"
    by blast
  from T2 [THEN conjunct2, THEN conjunct1] obtain c0 front out rest c1
    where c: "c0 = last (?C # branch_contexts (Suc 0) ex_env ex_machine () ex_event ?C [send_ping])"
      and r: "?res = front @ out @ rest"
      and s: "typeIs choose_even choose_type \<or> typeIs choose_even pure_type
                \<longrightarrow> branch_output ?sresolve ex_env ex_machine () ex_event c0 choose_even
                    = Some (out, c1)"
    by (elim exE conjE) (rule that; assumption)
  from c have "c0 = 2"
    unfolding ex_assigned B1 by simp
  with s types(2)
  have "branch_output ?sresolve ex_env ex_machine () ex_event 2 choose_even = Some (out, c1)"
    by simp
  with r have 3: "\<exists>front out rest c1. ?res = front @ out @ rest
      \<and> branch_output ?sresolve ex_env ex_machine () ex_event 2 choose_even = Some (out, c1)"
    by blast
  from T3 [THEN conjunct2, THEN conjunct1] obtain c0 front out rest c1
    where c: "c0 = last (?C # branch_contexts (Suc 0) ex_env ex_machine () ex_event ?C
                              [send_ping, choose_even])"
      and r: "?res = front @ out @ rest"
      and s: "typeIs pure_more choose_type \<or> typeIs pure_more pure_type
                \<longrightarrow> branch_output ?sresolve ex_env ex_machine () ex_event c0 pure_more
                    = Some (out, c1)"
    by (elim exE conjE) (rule that; assumption)
  from c have "c0 = 20"
    unfolding ex_assigned B2 by simp
  with s types(3)
  have "branch_output ?sresolve ex_env ex_machine () ex_event 20 pure_more = Some (out, c1)"
    by simp
  with r have 4: "\<exists>front out rest c1. ?res = front @ out @ rest
      \<and> branch_output ?sresolve ex_env ex_machine () ex_event 20 pure_more = Some (out, c1)"
    by blast
  from T4 [THEN conjunct2, THEN conjunct1] obtain c0 front out rest c1
    where c: "c0 = last (?C # branch_contexts (Suc 0) ex_env ex_machine () ex_event ?C
                              [send_ping, choose_even, pure_more])"
      and r: "?res = front @ out @ rest"
      and s: "typeIs log_count log_type
                \<longrightarrow> (\<exists>r. resolveLog log_count c0 ex_event = Inr r \<and> out = [r])"
    by (elim exE conjE) (rule that; assumption)
  from c have "c0 = 21"
    unfolding ex_assigned B3 by simp
  with s types(4) have "\<exists>r. resolveLog log_count 21 ex_event = Inr r \<and> out = [r]"
    by simp
  with r have 5: "\<exists>front out rest. ?res = front @ out @ rest
      \<and> (\<exists>r. resolveLog log_count 21 ex_event = Inr r \<and> out = [r])"
    by blast
  have run': "resolveActions (Suc 0) ex_env ex_machine () 3 ex_event [log_count]
      = Inr ([logged 3], 3, [])"
    by (simp add: eval_defs example_defs ex_more_defs)
  have split': "filter (\<lambda>x. \<not> typeIs x assign_type) [log_count] = [] @ log_count # []"
    by (simp add: eval_defs example_defs)
  have none: "\<forall>b\<in>set [log_count]. \<not> typeIs b assign_type"
    by (simp add: eval_defs example_defs)
  from assign_before_siblings [OF run' split'] none
  have 6: "assigned_context ex_env 3 ex_event () [log_count] = 3"
    by blast
  from none have none': "list_all (\<lambda>b. \<not> typeIs b assign_type) [log_count]"
    by (simp only: list_all_iff)
  from ex_run others ex_assigned 1 types(1) B0 2 delay types(2) B1 3 outc types(3) B2 4 outp
    types(4) B3 5 outl run' none' 6
  show ?thesis
    by (intro conjI)
qed

text \<open>
  C1 as it is written fails for an action that stands after a choose (or pure) action
  whose branch holds an assign action: the list below has no assign action of its own, so
  the context that its assign actions give is the input context 3, and yet the log action
  is resolved against 30, the context that the branch of the choose action returned.
\<close>

theorem sibling_after_choose_sees_branch_context:
  "assigned_context ex_env 3 ex_event ()
      [choose_action (Arr [Obj [(''actions'', Arr [assign times_ten])]]), log_count] = 3
 \<and> resolveActions (Suc (Suc 0)) ex_env ex_machine () 3 ex_event
      [choose_action (Arr [Obj [(''actions'', Arr [assign times_ten])]]), log_count]
    = Inr ([Obj [(''type'', Str log_type),
                 (''expr'', Fun ''expr'' ''ctx => ctx.count'' (\<lambda>ctx _ _. Num ctx)),
                 (''value'', Num 30)]], 30, [])
 \<and> resolveLog log_count 3 ex_event
    = Inr (Obj [(''type'', Str log_type),
                (''expr'', Fun ''expr'' ''ctx => ctx.count'' (\<lambda>ctx _ _. Num ctx)),
                (''value'', Num 3)])"
  by (simp add: eval_defs example_defs)

section \<open>The context that is returned\<close>

text \<open>
  C2, amended. The context that \<open>resolveActions\<close> returns is the last of: the context
  that the assign actions of the list give (the input context when there is none), and
  after it the contexts that the recursive resolutions of the branches of the choose and
  pure actions of the list return, one for each such action that has a branch, each from
  the context before it. So in a list with no choose and no pure action the context is
  replaced at most once, by the merged effect of the assign actions of the list, and that
  is the context returned.
\<close>

theorem returned_context:
  assumes "resolveActions (Suc n) env machine st ctx ev actions = Inr (res, ctx', ws)"
  shows "ctx' = last (assigned_context env ctx ev st actions
                      # branch_contexts n env machine st ev
                          (assigned_context env ctx ev st actions) actions)
       \<and> length (branch_contexts n env machine st ev
                   (assigned_context env ctx ev st actions) actions)
           \<le> length (filter (\<lambda>b. typeIs b choose_type \<or> typeIs b pure_type) actions)
       \<and> ((\<forall>b\<in>set actions. \<not> typeIs b choose_type \<and> \<not> typeIs b pure_type) \<longrightarrow>
            ctx' = assigned_context env ctx ev st actions)"
proof -
  let ?C = "assigned_context env ctx ev st actions"
  from assms obtain results
    where m: "map_actions
        (resolveAction (\<lambda>c nested. resolveActions n env machine st c ev nested)
           env machine st ev)
        ?C (filter (\<lambda>x. \<not> typeIs x assign_type) actions) = Inr (results, ctx', ws)"
    by (auto simp: resolveActions_partition split: if_splits sum.splits)
  from map_actions_branch_contexts [OF m]
  have 1: "ctx' = last (?C # branch_contexts n env machine st ev ?C actions)" .
  have 2: "ctx' = ?C" if "\<forall>b\<in>set actions. \<not> typeIs b choose_type \<and> \<not> typeIs b pure_type"
    using 1 that by (simp add: branch_contexts_plain)
  from 1 2 branch_contexts_length [of n env machine st ev ?C actions] show ?thesis
    by blast
qed

theorem returned_context_witness:
  "resolveActions (Suc (Suc 0)) ex_env ex_machine () 1 ex_event
      [send_ping, choose_even, pure_more, log_count, assign increment]
    = Inr ([resolveSend send_ping 2 ex_event (options_delays ex_machine), logged 21, logged 21],
           21, [])
 \<and> assigned_context ex_env 1 ex_event ()
      [send_ping, choose_even, pure_more, log_count, assign increment] = 2
 \<and> branch_contexts (Suc 0) ex_env ex_machine () ex_event 2
      [send_ping, choose_even, pure_more, log_count, assign increment] = [20, 21]
 \<and> (21 :: int) = last (2 # [20, 21])
 \<and> resolveActions (Suc 0) ex_env ex_machine () 1 ex_event
      [log_count, assign increment, assign times_ten]
    = Inr ([logged 20], 20, [])
 \<and> list_all (\<lambda>b. \<not> typeIs b choose_type \<and> \<not> typeIs b pure_type)
      [log_count, assign increment, assign times_ten]
 \<and> assigned_context ex_env 1 ex_event () [log_count, assign increment, assign times_ten] = 20"
proof -
  let ?actions = "[send_ping, choose_even, pure_more, log_count, assign increment]"
  let ?plain = "[log_count, assign increment, assign times_ten]"
  have run: "resolveActions (Suc (Suc 0)) ex_env ex_machine () 1 ex_event ?actions
    = Inr ([resolveSend send_ping 2 ex_event (options_delays ex_machine), logged 21, logged 21],
           21, [])"
    by (rule ex_run)
  have C: "assigned_context ex_env 1 ex_event () ?actions = 2"
    by (rule ex_assigned)
  have B: "branch_contexts (Suc 0) ex_env ex_machine () ex_event 2 ?actions = [20, 21]"
    by (rule ex_branch_contexts)
  from returned_context [OF run] have "21 = last
      (assigned_context ex_env 1 ex_event () ?actions
       # branch_contexts (Suc 0) ex_env ex_machine () ex_event
           (assigned_context ex_env 1 ex_event () ?actions) ?actions)"
    by (rule conjunct1)
  then have 1: "(21 :: int) = last (2 # [20, 21])"
    unfolding C B .
  have run': "resolveActions (Suc 0) ex_env ex_machine () 1 ex_event ?plain
    = Inr ([logged 20], 20, [])"
    by (simp add: eval_defs example_defs ex_more_defs)
  have plain: "\<forall>b\<in>set ?plain. \<not> typeIs b choose_type \<and> \<not> typeIs b pure_type"
    by (simp add: eval_defs example_defs)
  from returned_context [OF run'] plain
  have 2: "assigned_context ex_env 1 ex_event () ?plain = 20"
    by simp
  from run C B 1 run' plain 2 show ?thesis
    by (simp add: list_all_iff)
qed

text \<open>
  C2 as it is written fails for a list with a choose action whose branch holds an assign
  action: the assign action of the list makes 2 of the context 1, the branch of the choose
  action makes 20 of it, and 20 is returned.
\<close>

theorem context_replaced_by_branch:
  "assigned_context ex_env 1 ex_event ()
      [assign increment, choose_action (Arr [Obj [(''actions'', Arr [assign times_ten])]])] = 2
 \<and> resolveActions (Suc (Suc 0)) ex_env ex_machine () 1 ex_event
      [assign increment, choose_action (Arr [Obj [(''actions'', Arr [assign times_ten])]])]
    = Inr ([], 20, [])"
  by (simp add: eval_defs example_defs)

section \<open>The order of the output\<close>

lemma callback_entry:
  assumes rel: "\<And>nested xs c' w. resolve c nested = Inr (xs, c', w)
                  \<Longrightarrow> sresolve c nested = Some (xs, c')"
    and a: "\<not> typeIs a assign_type"
    and r: "resolveAction resolve env machine st ev c a = Inr (r, c1, w)"
  shows "entry_output sresolve env machine st ev c a = Some (flatten [r], c1)"
proof (cases "typeIs a choose_type \<or> typeIs a pure_type")
  case True
  have "\<exists>xs. r = Arr xs \<and> branch_output sresolve env machine st ev c a = Some (xs, c1)"
  proof (rule callback_branch [where resolve = resolve and w = w])
    show "sresolve c nested = Some (xs, c')" if "resolve c nested = Inr (xs, c', w)"
      for nested xs c' w
      using that by (rule rel)
  qed (fact True r)+
  with a True show ?thesis
    by (auto simp: entry_output_def)
next
  case False
  with callback_counterpart [of a resolve env machine st ev c r c1 w] r a show ?thesis
    by (auto simp: entry_output_def flatten_object)
qed

lemma map_actions_in_order:
  assumes rel: "\<And>c nested xs c' w. resolve c nested = Inr (xs, c', w)
                  \<Longrightarrow> sresolve c nested = Some (xs, c')"
    and m: "map_actions (resolveAction resolve env machine st ev) c
              (filter (\<lambda>x. \<not> typeIs x assign_type) xs) = Inr (rs, c', w)"
  shows "in_order (entry_output sresolve env machine st ev) c xs = Some (flatten rs, c')"
  using m
proof (induction xs arbitrary: c rs w)
  case Nil
  then show ?case by simp
next
  case (Cons a xs)
  let ?f = "resolveAction resolve env machine st ev"
  show ?case
  proof (cases "typeIs a assign_type")
    case True
    with Cons.prems
    have "map_actions ?f c (filter (\<lambda>x. \<not> typeIs x assign_type) xs) = Inr (rs, c', w)"
      by simp
    from Cons.IH [OF this] True show ?thesis
      by (simp add: entry_output_def)
  next
    case False
    with Cons.prems obtain r c1 w1 rs' w2
      where r: "?f c a = Inr (r, c1, w1)"
        and rest: "map_actions ?f c1 (filter (\<lambda>x. \<not> typeIs x assign_type) xs) = Inr (rs', c', w2)"
        and rs: "rs = r # rs'"
      by (auto split: sum.splits)
    from callback_entry [OF rel False r]
    have "entry_output sresolve env machine st ev c a = Some (flatten [r], c1)" .
    with Cons.IH [OF rest] rs show ?thesis
      by (simp add: flatten_Cons)
  qed
qed

text \<open>
  C4, amended. What \<open>resolveActions\<close> returns is the outputs of the entries of the list,
  one after the other in the order of the list: a choose or pure entry puts out the
  resolved output of its selected or generated branch, which is in the order of the
  branch in the same way; an assign entry nothing; and every other entry its resolved
  counterpart. The context starts as the one that the assign actions of the list give.
\<close>

theorem output_in_input_order:
  assumes "resolveActions k env machine st ctx ev actions = Inr (res, ctx', ws)"
  shows "spliced k env machine st ev ctx actions = Some (res, ctx')"
  using assms
proof (induction k arbitrary: ctx actions res ctx' ws)
  case 0
  then show ?case by simp
next
  case (Suc k)
  from Suc.prems obtain results
    where m: "map_actions
        (resolveAction (\<lambda>c nested. resolveActions k env machine st c ev nested)
           env machine st ev)
        (assigned_context env ctx ev st actions)
        (filter (\<lambda>x. \<not> typeIs x assign_type) actions) = Inr (results, ctx', ws)"
      and res: "res = flatten results"
    by (auto simp: resolveActions_partition split: if_splits sum.splits)
  have "in_order (entry_output (spliced k env machine st ev) env machine st ev)
          (assigned_context env ctx ev st actions) actions = Some (flatten results, ctx')"
    using Suc.IH m by (rule map_actions_in_order)
  with res show ?case by simp
qed

theorem output_in_input_order_witness:
  "resolveActions (Suc (Suc 0)) ex_env ex_machine () 1 ex_event
      [send_ping, choose_even, pure_more, log_count, assign increment]
    = Inr ([resolveSend send_ping 2 ex_event (options_delays ex_machine), logged 21, logged 21],
           21, [])
 \<and> spliced (Suc (Suc 0)) ex_env ex_machine () ex_event 1
      [send_ping, choose_even, pure_more, log_count, assign increment]
    = Some ([resolveSend send_ping 2 ex_event (options_delays ex_machine), logged 21, logged 21],
            21)
 \<and> entry_output (spliced (Suc 0) ex_env ex_machine () ex_event) ex_env ex_machine () ex_event
      2 send_ping
    = Some ([resolveSend send_ping 2 ex_event (options_delays ex_machine)], 2)
 \<and> entry_output (spliced (Suc 0) ex_env ex_machine () ex_event) ex_env ex_machine () ex_event
      2 choose_even
    = Some ([], 20)
 \<and> entry_output (spliced (Suc 0) ex_env ex_machine () ex_event) ex_env ex_machine () ex_event
      20 pure_more
    = Some ([logged 21], 21)
 \<and> entry_output (spliced (Suc 0) ex_env ex_machine () ex_event) ex_env ex_machine () ex_event
      21 log_count
    = Some ([logged 21], 21)
 \<and> entry_output (spliced (Suc 0) ex_env ex_machine () ex_event) ex_env ex_machine () ex_event
      21 (assign increment)
    = Some ([], 21)"
proof -
  let ?actions = "[send_ping, choose_even, pure_more, log_count, assign increment]"
  let ?e = "entry_output (spliced (Suc 0) ex_env ex_machine () ex_event) ex_env ex_machine ()
      ex_event"
  have run: "resolveActions (Suc (Suc 0)) ex_env ex_machine () 1 ex_event ?actions
    = Inr ([resolveSend send_ping 2 ex_event (options_delays ex_machine), logged 21, logged 21],
           21, [])"
    by (rule ex_run)
  note s = output_in_input_order [OF run]
  have 1: "?e 2 send_ping
      = Some ([resolveSend send_ping 2 ex_event (options_delays ex_machine)], 2)"
    by (simp add: entry_output_def resolved_counterpart_def send_ping_def send_def typeIs_def
        types_distinct send_type_def raise_type_def assign_type_def choose_type_def
        pure_type_def)
  have 2: "?e 2 choose_even = Some ([], 20)"
    by (simp add: eval_defs example_defs ex_more_defs)
  have 3: "?e 20 pure_more = Some ([logged 21], 21)"
    by (simp add: eval_defs example_defs ex_more_defs)
  have 4: "?e 21 log_count = Some ([logged 21], 21)"
    by (simp add: eval_defs example_defs ex_more_defs)
  have 5: "?e 21 (assign increment) = Some ([], 21)"
    by (simp add: eval_defs example_defs ex_more_defs)
  from run s 1 2 3 4 5 show ?thesis
    by (intro conjI)
qed

text \<open>
  C4 as it is written fails for a list with an assign action: the list below has two
  entries, neither a choose nor a pure action, and the output has one.
\<close>

theorem assign_entry_has_no_output:
  "resolveActions (Suc 0) ex_env ex_machine () 1 ex_event [assign increment, log_count]
    = Inr ([Obj [(''type'', Str log_type),
                 (''expr'', Fun ''expr'' ''ctx => ctx.count'' (\<lambda>ctx _ _. Num ctx)),
                 (''value'', Num 2)]], 2, [])
 \<and> length [Obj [(''type'', Str log_type),
                 (''expr'', Fun ''expr'' ''ctx => ctx.count'' (\<lambda>ctx _ _. Num ctx)),
                 (''value'', Num (2 :: int))]]
      < length [assign increment, log_count]
 \<and> \<not> typeIs (assign increment) choose_type \<and> \<not> typeIs (assign increment) pure_type
 \<and> \<not> typeIs log_count choose_type \<and> \<not> typeIs log_count pure_type"
  by (simp add: eval_defs example_defs)

section \<open>What a call keeps of the store\<close>


lemma kept_refl [simp]: "kept c c"
  by (cases c) (simp_all add: kept_def)


lemma store_kept_iff:
  "store_kept s s' \<longleftrightarrow> length s \<le> length s' \<and> (\<forall>a<length s. kept (s ! a) (s' ! a))"
  by (auto simp: store_kept_def list_all2_conv_all_nth)

lemma store_kept_refl [simp]: "store_kept s s"
  by (simp add: store_kept_iff)



















section \<open>Which objects a call returns\<close>

lemma store_kept_length: "store_kept s s' \<Longrightarrow> length s \<le> length s'"
  by (simp add: store_kept_iff)































end
